theory Spec2Isabelle
  imports Complex_Main "HOL-Library.Word"
begin

unbundle bit_operations_syntax

section \<open>Morton index mapper\<close>

text \<open>
  \<^verbatim>\<open>DecodeMorton2X\<close> and \<^verbatim>\<open>DecodeMorton2Y\<close> of \<^verbatim>\<open>src/__init__.py\<close>. Python integers are
  unbounded, so the code is read on \<^typ>\<open>int\<close>: \<^verbatim>\<open>&\<close> is \<open>AND\<close>, \<^verbatim>\<open>|\<close> is \<open>OR\<close> and
  \<^verbatim>\<open>>> k\<close> is \<open>drop_bit k\<close> (all three agree with Python on negative numbers as well).
  Each line of the source rebinds \<^verbatim>\<open>code\<close>; the \<open>let\<close> chain does the same.
\<close>

definition DecodeMorton2X :: "int \<Rightarrow> int" where
  "DecodeMorton2X code0 =
     (let code = code0 AND 0x55555555;
          code = (code OR (drop_bit 1 code)) AND 0x33333333;
          code = (code OR (drop_bit 2 code)) AND 0x0F0F0F0F;
          code = (code OR (drop_bit 4 code)) AND 0x00FF00FF;
          code = (code OR (drop_bit 8 code)) AND 0x0000FFFF
      in code)"

definition DecodeMorton2Y :: "int \<Rightarrow> int" where
  "DecodeMorton2Y code0 =
     (let code = (drop_bit 1 code0) AND 0x55555555;
          code = (code OR (drop_bit 1 code)) AND 0x33333333;
          code = (code OR (drop_bit 2 code)) AND 0x0F0F0F0F;
          code = (code OR (drop_bit 4 code)) AND 0x00FF00FF;
          code = (code OR (drop_bit 8 code)) AND 0x0000FFFF
      in code)"

text \<open>
  The specification's wording, for comparison with the code: the integer formed by the
  even-position bits of a non-negative number (bit \<open>2 * i\<close> of the argument becomes bit
  \<open>i\<close> of the result), and the one formed by its odd-position bits.
\<close>

fun even_bits :: "nat \<Rightarrow> nat" where
  "even_bits n = (if n = 0 then 0 else n mod 2 + 2 * even_bits (n div 4))"

definition odd_bits :: "nat \<Rightarrow> nat" where
  "odd_bits n = even_bits (n div 2)"

declare even_bits.simps [simp del]

section \<open>Data model\<close>

text \<open>
  Vector components and pixel channels are floating-point numbers in the program. A finite
  floating-point number is a real number, and that is how the values are typed here; no
  arithmetic of the program is read as real arithmetic: every floating-point operation
  that the encoder calls is a parameter (the record \<open>mathutils\<close> below). Only the
  conversion of the header's integers and of the constants 0 and 1 to floating point is
  taken to be exact, as it is for every integer below \<open>2 ^ 53\<close>. A pixel is one row of the \<^verbatim>\<open>(n, 4)\<close> arrays \<^verbatim>\<open>offsets\<close> and
  \<^verbatim>\<open>normals\<close>; \<^verbatim>\<open>flatten()\<close> only concatenates the rows, so a buffer is kept as a list of
  pixels and \<^verbatim>\<open>offsets[idx * 4: (idx + 1) * 4]\<close> is its element \<open>idx\<close>.
\<close>

type_synonym vec3 = "real \<times> real \<times> real"
type_synonym pixel = "real \<times> real \<times> real \<times> real"
type_synonym mat3 = "vec3 \<times> vec3 \<times> vec3"

datatype quaternion = Quaternion (quat_w: real) (quat_x: real) (quat_y: real) (quat_z: real)

text \<open>
  A mesh loop (face corner) after \<^verbatim>\<open>calc_tangents()\<close>, and a mesh. The \<^verbatim>\<open>index\<close> of a vertex
  or loop is its position in the mesh's collection, so it is not stored.
\<close>

record loop =
  vertex_index :: nat
  normal :: vec3
  tangent :: vec3

record mesh =
  vertices :: "vec3 list"
  loops :: "loop list"

datatype error =
    DisallowedModifier
  | VertexLimitExceeded
  | FrameLimitExceeded
  | PixelBudgetExceeded
  | IndexError
  | ValueError

text \<open>
  The operations of the external library \<^verbatim>\<open>mathutils\<close> that the encoder calls: the
  difference \<^verbatim>\<open>-\<close> of two vectors, \<^verbatim>\<open>Vector.normalized\<close>, \<^verbatim>\<open>Vector.cross\<close>,
  \<^verbatim>\<open>Matrix.inverted\<close> (which raises \<^verbatim>\<open>ValueError\<close> on a matrix without inverse: \<open>None\<close>),
  the matrix product \<^verbatim>\<open>@\<close> and \<^verbatim>\<open>Matrix.to_quaternion\<close>. They compute in single precision
  and are a parameter of the encoder: nothing is assumed of them but what a theorem
  states.
\<close>

record mathutils =
  sub :: "vec3 \<Rightarrow> vec3 \<Rightarrow> vec3"
  normalized :: "vec3 \<Rightarrow> vec3"
  cross :: "vec3 \<Rightarrow> vec3 \<Rightarrow> vec3"
  inverted :: "mat3 \<Rightarrow> mat3 option"
  matmul :: "mat3 \<Rightarrow> mat3 \<Rightarrow> mat3"
  to_quaternion :: "mat3 \<Rightarrow> quaternion"

record textures =
  imageWidth :: int
  imageHeight :: int
  offset_pixels :: "pixel list"
  normal_pixels :: "pixel list"

definition imageWidthGranularity :: int where
  "imageWidthGranularity = 32"

definition imageHeightGranularity :: int where
  "imageHeightGranularity = 32"

definition zero_pixel :: pixel where
  "zero_pixel = (0, 0, 0, 0)"

subsection \<open>Indexing as Python and numpy do it\<close>

definition py_getitem :: "'a list \<Rightarrow> nat \<Rightarrow> error + 'a" where
  "py_getitem xs i = (if i < length xs then Inr (xs ! i) else Inl IndexError)"

definition np_setitem :: "'a list \<Rightarrow> nat \<Rightarrow> 'a \<Rightarrow> error + 'a list" where
  "np_setitem xs i v = (if i < length xs then Inr (xs[i := v]) else Inl IndexError)"

text \<open>An integer index into an axis of length \<open>n\<close>: negative indices count from the end.\<close>

definition np_index :: "nat \<Rightarrow> int \<Rightarrow> error + nat" where
  "np_index n i =
     (if 0 \<le> i \<and> i < int n then Inr (nat i)
      else if - int n \<le> i \<and> i < 0 then Inr (nat (i + int n))
      else Inl IndexError)"

text \<open>\<^verbatim>\<open>grid[y, x] = p\<close> on an array of shape \<^verbatim>\<open>(len(grid), w, 4)\<close>, kept as a list of rows.\<close>

definition np_setitem2 :: "'a list list \<Rightarrow> nat \<Rightarrow> int \<Rightarrow> int \<Rightarrow> 'a \<Rightarrow> error + 'a list list" where
  "np_setitem2 grid w y x p =
     (case np_index (length grid) y of
        Inl e \<Rightarrow> Inl e
      | Inr r \<Rightarrow>
          (case np_index w x of
             Inl e \<Rightarrow> Inl e
           | Inr c \<Rightarrow> Inr (grid[r := (grid ! r)[c := p]])))"

text \<open>
  The four values \<^verbatim>\<open>buf[idx * 4: (idx + 1) * 4]\<close>; a slice that runs off the end is
  shorter, and assigning it to a pixel raises \<^verbatim>\<open>ValueError\<close>.
\<close>

definition slice4 :: "pixel list \<Rightarrow> nat \<Rightarrow> error + pixel" where
  "slice4 buf idx = (if idx < length buf then Inr (buf ! idx) else Inl ValueError)"

text \<open>\<^verbatim>\<open>max\<close> of a sequence: \<^verbatim>\<open>ValueError\<close> on an empty one.\<close>

fun py_max :: "int list \<Rightarrow> error + int" where
  "py_max [] = Inl ValueError"
| "py_max (x # xs) = Inr (fold max xs x)"

section \<open>Frame delta accumulator: \<^verbatim>\<open>get_vertex_data\<close>\<close>

text \<open>\<^verbatim>\<open>(*offset, 1)\<close>\<close>

definition offset_pixel :: "vec3 \<Rightarrow> pixel" where
  "offset_pixel offset = (case offset of (x, y, z) \<Rightarrow> (x, y, z, 1))"

text \<open>\<^verbatim>\<open>(quat.x, quat.y, quat.z, quat.w)\<close>\<close>

definition quat_pixel :: "quaternion \<Rightarrow> pixel" where
  "quat_pixel quat = (quat_x quat, quat_y quat, quat_z quat, quat_w quat)"

text \<open>The header written to slot 0 of both arrays (lines 204 to 210).\<close>

definition header :: "int \<Rightarrow> int \<Rightarrow> pixel" where
  "header vertex_count frame_count =
     (let vertex_count_MSH = vertex_count div 2048 - 2048;
          vertex_count_LSH = vertex_count mod 2048 - 2048;
          frame_count_MSH = frame_count div 2048 - 2048;
          frame_count_LSH = frame_count mod 2048 - 2048
      in (of_int vertex_count_MSH, of_int vertex_count_LSH, of_int frame_count_LSH, 1))"

text \<open>
  The row matrix \<^verbatim>\<open>Matrix((N, T, B))\<close> of a loop: normalised normal, normalised tangent and
  their normalised cross product.
\<close>

definition frame_matrix :: "mathutils \<Rightarrow> loop \<Rightarrow> mat3" where
  "frame_matrix mu l =
     (let N = normalized mu (normal l);
          T = normalized mu (tangent l);
          B = normalized mu (cross mu N T)
      in (N, T, B))"

text \<open>
  The body of the branch \<^verbatim>\<open>if 1:\<close> (lines 229 to 241). Its \<^verbatim>\<open>else\<close> branch, which compares
  the two normals and returns \<^verbatim>\<open>Quaternion((1, 0, 0, 0))\<close> when they are equal, is never
  run.
\<close>

definition loop_quat :: "mathutils \<Rightarrow> loop \<Rightarrow> loop \<Rightarrow> error + quaternion" where
  "loop_quat mu l0 l =
     (let M0 = frame_matrix mu l0;
          M = frame_matrix mu l
      in case inverted mu M of
           None \<Rightarrow> Inl ValueError
         | Some Mi \<Rightarrow>
             (let rot = matmul mu Mi M0 in Inr (to_quaternion mu rot)))"

text \<open>\<^verbatim>\<open>for v in me.vertices\<close>; \<open>i\<close> is \<^verbatim>\<open>v.index\<close> of the first vertex still to do.\<close>

fun vertices_loop :: "mathutils \<Rightarrow> vec3 list \<Rightarrow> nat \<Rightarrow> nat \<Rightarrow> vec3 list \<Rightarrow> pixel list
    \<Rightarrow> error + pixel list" where
  "vertices_loop mu original start_of_frame i [] offsets = Inr offsets"
| "vertices_loop mu original start_of_frame i (co # vs) offsets =
     (case py_getitem original i of
        Inl e \<Rightarrow> Inl e
      | Inr co0 \<Rightarrow>
          (let offset = sub mu co co0
           in case np_setitem offsets (start_of_frame + i) (offset_pixel offset) of
                Inl e \<Rightarrow> Inl e
              | Inr offsets' \<Rightarrow> vertices_loop mu original start_of_frame (Suc i) vs offsets'))"

text \<open>\<^verbatim>\<open>for l in me.loops\<close>; \<open>i\<close> is \<^verbatim>\<open>l.index\<close> of the first loop still to do.\<close>

fun loops_loop :: "mathutils \<Rightarrow> loop list \<Rightarrow> nat \<Rightarrow> nat \<Rightarrow> loop list \<Rightarrow> pixel list \<Rightarrow> error + pixel list" where
  "loops_loop mu originalL start_of_frame i [] normals = Inr normals"
| "loops_loop mu originalL start_of_frame i (l # ls) normals =
     (case py_getitem originalL i of
        Inl e \<Rightarrow> Inl e
      | Inr l0 \<Rightarrow>
          (case loop_quat mu l0 l of
             Inl e \<Rightarrow> Inl e
           | Inr quat \<Rightarrow>
               (case np_setitem normals (start_of_frame + vertex_index l) (quat_pixel quat) of
                  Inl e \<Rightarrow> Inl e
                | Inr normals' \<Rightarrow> loops_loop mu originalL start_of_frame (Suc i) ls normals')))"

text \<open>\<^verbatim>\<open>for me in meshes\<close>\<close>

fun frames_loop :: "mathutils \<Rightarrow> vec3 list \<Rightarrow> loop list \<Rightarrow> mesh list \<Rightarrow> nat \<Rightarrow> pixel list \<Rightarrow> pixel list
    \<Rightarrow> error + pixel list \<times> pixel list" where
  "frames_loop mu original originalL [] start_of_frame offsets normals = Inr (offsets, normals)"
| "frames_loop mu original originalL (me # ms) start_of_frame offsets normals =
     (case vertices_loop mu original start_of_frame 0 (vertices me) offsets of
        Inl e \<Rightarrow> Inl e
      | Inr offsets' \<Rightarrow>
          (case loops_loop mu originalL start_of_frame 0 (loops me) normals of
             Inl e \<Rightarrow> Inl e
           | Inr normals' \<Rightarrow>
               frames_loop mu original originalL ms (start_of_frame + length (vertices me))
                 offsets' normals'))"

definition get_vertex_data :: "mathutils \<Rightarrow> mesh list \<Rightarrow> int \<Rightarrow> int \<Rightarrow> error + pixel list \<times> pixel list" where
  "get_vertex_data mu meshes vertex_count frame_count =
     (case meshes of
        [] \<Rightarrow> Inl IndexError
      | m0 # _ \<Rightarrow>
          (let original = vertices m0;
               originalL = loops m0;
               offsets = replicate (length original * length meshes + 1) zero_pixel;
               normals = replicate (length original * length meshes + 1) zero_pixel;
               offsets = offsets[0 := header vertex_count frame_count];
               normals = normals[0 := header vertex_count frame_count]
           in frames_loop mu original originalL meshes 1 offsets normals))"

section \<open>Capacity checks and layout: \<^verbatim>\<open>OBJECT_OT_ProcessAnimMeshes.execute\<close>\<close>

text \<open>
  The three checks of lines 452 to 472, in their order; each reports its own message and
  returns \<^verbatim>\<open>{'CANCELLED'}\<close>. \<open>None\<close>: all three passed.
\<close>

definition capacity_check :: "int \<Rightarrow> int \<Rightarrow> error option" where
  "capacity_check vertex_count frame_count =
     (if vertex_count > 4096 * 4095 then Some VertexLimitExceeded
      else if frame_count > 4096 then Some FrameLimitExceeded
      else if frame_count * vertex_count + 1 > 8192 * 8192 then Some PixelBudgetExceeded
      else None)"

text \<open>\<^verbatim>\<open>int(math.ceil(m / g) * g)\<close>, with Python's true division.\<close>

definition ceil_to :: "int \<Rightarrow> int \<Rightarrow> int" where
  "ceil_to m g = \<lceil>real_of_int m / real_of_int g\<rceil> * g"

text \<open>Lines 491 to 495: the size of the Z-curve texture for \<open>num_elements\<close> pixels.\<close>

definition zcurve_size :: "nat \<Rightarrow> error + int \<times> int" where
  "zcurve_size num_elements =
     (case py_max (map (\<lambda>idx. DecodeMorton2X (int idx)) [0..<num_elements]) of
        Inl e \<Rightarrow> Inl e
      | Inr mx \<Rightarrow>
          (case py_max (map (\<lambda>idx. DecodeMorton2Y (int idx)) [0..<num_elements]) of
             Inl e \<Rightarrow> Inl e
           | Inr my \<Rightarrow>
               (let max_x = mx + 1;
                    max_y = my + 1
                in Inr (ceil_to max_x imageWidthGranularity, ceil_to max_y imageHeightGranularity))))"

text \<open>\<^verbatim>\<open>np.zeros((h, w, 4))\<close>\<close>

definition np_zeros :: "int \<Rightarrow> int \<Rightarrow> pixel list list" where
  "np_zeros h w = replicate (nat h) (replicate (nat w) zero_pixel)"

text \<open>Lines 500 to 504: \<^verbatim>\<open>for idx in range(num_elements)\<close>, over the indices still to do.\<close>

fun scatter_loop :: "nat \<Rightarrow> nat list \<Rightarrow> pixel list \<Rightarrow> pixel list \<Rightarrow> pixel list list \<Rightarrow> pixel list list
    \<Rightarrow> error + pixel list list \<times> pixel list list" where
  "scatter_loop w [] offsets normals offsets_z_curved normals_z_curved =
     Inr (offsets_z_curved, normals_z_curved)"
| "scatter_loop w (idx # idxs) offsets normals offsets_z_curved normals_z_curved =
     (let x = DecodeMorton2X (int idx);
          y = DecodeMorton2Y (int idx)
      in case slice4 offsets idx of
           Inl e \<Rightarrow> Inl e
         | Inr po \<Rightarrow>
             (case np_setitem2 offsets_z_curved w y x po of
                Inl e \<Rightarrow> Inl e
              | Inr oz \<Rightarrow>
                  (case slice4 normals idx of
                     Inl e \<Rightarrow> Inl e
                   | Inr pn \<Rightarrow>
                       (case np_setitem2 normals_z_curved w y x pn of
                          Inl e \<Rightarrow> Inl e
                        | Inr nz \<Rightarrow> scatter_loop w idxs offsets normals oz nz))))"

text \<open>The branch \<^verbatim>\<open>if ...zcurve:\<close> (lines 487 to 511).\<close>

definition zcurve_layout :: "pixel list \<Rightarrow> pixel list \<Rightarrow> error + textures" where
  "zcurve_layout offsets normals =
     (let num_elements = length offsets
      in case zcurve_size num_elements of
           Inl e \<Rightarrow> Inl e
         | Inr (w, h) \<Rightarrow>
             (case scatter_loop (nat w) [0..<num_elements] offsets normals (np_zeros h w) (np_zeros h w) of
                Inl e \<Rightarrow> Inl e
              | Inr (oz, nz) \<Rightarrow>
                  Inr \<lparr>imageWidth = w, imageHeight = h,
                       offset_pixels = concat oz, normal_pixels = concat nz\<rparr>))"

text \<open>The branch \<^verbatim>\<open>else:\<close> (lines 513 to 519).\<close>

definition linear_layout :: "int \<Rightarrow> int \<Rightarrow> pixel list \<Rightarrow> pixel list \<Rightarrow> textures" where
  "linear_layout vertex_count frame_count offsets normals =
     \<lparr>imageWidth = vertex_count, imageHeight = frame_count,
      offset_pixels = drop 1 offsets, normal_pixels = drop 1 normals\<rparr>"

text \<open>
  \<^verbatim>\<open>execute\<close> from the modifier check on. Its inputs are what the scene gives it: whether
  every modifier is an allowed one, the vertex count of the selected objects, the length
  of the frame range, the per-frame meshes of \<^verbatim>\<open>get_per_frame_mesh_data\<close> and the \<^verbatim>\<open>zcurve\<close>
  setting. The result is what is handed to \<^verbatim>\<open>bake_vertex_data\<close>.
\<close>

definition execute :: "mathutils \<Rightarrow> bool \<Rightarrow> int \<Rightarrow> int \<Rightarrow> mesh list \<Rightarrow> bool \<Rightarrow> error + textures" where
  "execute mu modifiers_allowed vertex_count frame_count meshes zcurve =
     (if \<not> modifiers_allowed then Inl DisallowedModifier
      else case capacity_check vertex_count frame_count of
             Some e \<Rightarrow> Inl e
           | None \<Rightarrow>
               (case get_vertex_data mu meshes vertex_count frame_count of
                  Inl e \<Rightarrow> Inl e
                | Inr (offsets, normals) \<Rightarrow>
                    if zcurve then zcurve_layout offsets normals
                    else Inr (linear_layout vertex_count frame_count offsets normals)))"

section \<open>Header decoding\<close>

text \<open>
  Modelled from the spec: the decoder of the header, which is the consuming shader and not
  part of the repository. The specification gives its rule as
  \<^verbatim>\<open>n = (MSH + 2048)*2048 + (LSH + 2048)\<close>. The header stores no most significant half
  for the frame count; its decoder can only take that half to be the encoding of zero,
  \<open>- 2048\<close>.
\<close>

definition decode_header :: "real \<Rightarrow> real \<Rightarrow> real" where
  "decode_header MSH LSH = (MSH + 2048) * 2048 + (LSH + 2048)"

definition decoded_vertex_count :: "pixel \<Rightarrow> real" where
  "decoded_vertex_count p = (case p of (vertex_count_MSH, vertex_count_LSH, frame_count_LSH, a) \<Rightarrow>
     decode_header vertex_count_MSH vertex_count_LSH)"

definition decoded_frame_count :: "pixel \<Rightarrow> real" where
  "decoded_frame_count p = (case p of (vertex_count_MSH, vertex_count_LSH, frame_count_LSH, a) \<Rightarrow>
     decode_header (- 2048) frame_count_LSH)"

section \<open>The library operations in exact arithmetic\<close>

text \<open>
  An instance of the library parameter, used where a claim speaks of the values of
  quaternions: the operations of \<^verbatim>\<open>mathutils\<close> with their mathematical meaning on real
  numbers. Matrices are given by their rows. \<open>mat_to_quaternion\<close> is the usual four-case
  conversion of a matrix to a quaternion, followed by the normalisation to unit length.
  The instance serves closed examples only; no universally quantified theorem about the
  encoder is stated for it.
\<close>

definition vec_sub :: "vec3 \<Rightarrow> vec3 \<Rightarrow> vec3" where
  "vec_sub a b = (case a of (ax, ay, az) \<Rightarrow> case b of (bx, by, bz) \<Rightarrow> (ax - bx, ay - by, az - bz))"

definition vec_normalized :: "vec3 \<Rightarrow> vec3" where
  "vec_normalized v = (case v of (x, y, z) \<Rightarrow>
     (let len = sqrt (x * x + y * y + z * z)
      in if len = 0 then (0, 0, 0) else (x / len, y / len, z / len)))"

definition vec_cross :: "vec3 \<Rightarrow> vec3 \<Rightarrow> vec3" where
  "vec_cross a b = (case a of (ax, ay, az) \<Rightarrow> case b of (bx, by, bz) \<Rightarrow>
     (ay * bz - az * by, az * bx - ax * bz, ax * by - ay * bx))"

definition mat_det :: "mat3 \<Rightarrow> real" where
  "mat_det m = (case m of ((a, b, c), (d, e, f), (g, h, i)) \<Rightarrow>
     a * (e * i - f * h) - b * (d * i - f * g) + c * (d * h - e * g))"

definition mat_inverted :: "mat3 \<Rightarrow> mat3 option" where
  "mat_inverted m = (case m of ((a, b, c), (d, e, f), (g, h, i)) \<Rightarrow>
     (let det = mat_det m
      in if det = 0 then None
         else Some (((e * i - f * h) / det, (c * h - b * i) / det, (b * f - c * e) / det),
                    ((f * g - d * i) / det, (a * i - c * g) / det, (c * d - a * f) / det),
                    ((d * h - e * g) / det, (b * g - a * h) / det, (a * e - b * d) / det))))"

definition vec_dot :: "vec3 \<Rightarrow> vec3 \<Rightarrow> real" where
  "vec_dot a b = (case a of (ax, ay, az) \<Rightarrow> case b of (bx, by, bz) \<Rightarrow> ax * bx + ay * by + az * bz)"

definition mat_mul :: "mat3 \<Rightarrow> mat3 \<Rightarrow> mat3" where
  "mat_mul m n = (case m of (r0, r1, r2) \<Rightarrow> case n of ((a, b, c), (d, e, f), (g, h, i)) \<Rightarrow>
     (let c0 = (a, d, g); c1 = (b, e, h); c2 = (c, f, i)
      in ((vec_dot r0 c0, vec_dot r0 c1, vec_dot r0 c2),
          (vec_dot r1 c0, vec_dot r1 c1, vec_dot r1 c2),
          (vec_dot r2 c0, vec_dot r2 c1, vec_dot r2 c2))))"

definition quat_norm_sq :: "quaternion \<Rightarrow> real" where
  "quat_norm_sq q = quat_w q * quat_w q + quat_x q * quat_x q + quat_y q * quat_y q + quat_z q * quat_z q"

text \<open>A quaternion of unit length.\<close>

definition quat_unit :: "quaternion \<Rightarrow> bool" where
  "quat_unit q \<longleftrightarrow> quat_norm_sq q = 1"

text \<open>
  Division by the length. The quaternions normalised below are never of length 0 (lemma
  \<open>raw_quaternion_nonzero\<close>); a quaternion of length 0 is left as it is.
\<close>

definition quat_normalized :: "quaternion \<Rightarrow> quaternion" where
  "quat_normalized q =
     (let len = sqrt (quat_norm_sq q)
      in if len = 0 then q
         else Quaternion (quat_w q / len) (quat_x q / len) (quat_y q / len) (quat_z q / len))"

definition raw_quaternion :: "mat3 \<Rightarrow> quaternion" where
  "raw_quaternion m = (case m of ((m00, m01, m02), (m10, m11, m12), (m20, m21, m22)) \<Rightarrow>
     (if m22 < 0 then
        (if m00 > m11 then
           (let s0 = 2 * sqrt (1 + m00 - m11 - m22);
                s = (if m21 < m12 then - s0 else s0)
            in Quaternion ((m21 - m12) / s) (s / 4) ((m01 + m10) / s) ((m02 + m20) / s))
         else
           (let s0 = 2 * sqrt (1 - m00 + m11 - m22);
                s = (if m02 < m20 then - s0 else s0)
            in Quaternion ((m02 - m20) / s) ((m01 + m10) / s) (s / 4) ((m12 + m21) / s)))
      else
        (if m00 < - m11 then
           (let s0 = 2 * sqrt (1 - m00 - m11 + m22);
                s = (if m10 < m01 then - s0 else s0)
            in Quaternion ((m10 - m01) / s) ((m02 + m20) / s) ((m12 + m21) / s) (s / 4))
         else
           (let s = 2 * sqrt (1 + m00 + m11 + m22)
            in Quaternion (s / 4) ((m21 - m12) / s) ((m02 - m20) / s) ((m10 - m01) / s)))))"

definition mat_to_quaternion :: "mat3 \<Rightarrow> quaternion" where
  "mat_to_quaternion m = quat_normalized (raw_quaternion m)"

definition exact_mathutils :: mathutils where
  "exact_mathutils =
     \<lparr>sub = vec_sub, normalized = vec_normalized, cross = vec_cross, inverted = mat_inverted,
      matmul = mat_mul, to_quaternion = mat_to_quaternion\<rparr>"

section \<open>Well-formed input\<close>

text \<open>
  What the specification asks of the caller: every per-frame mesh has \<open>vertex_count\<close>
  vertices and there are \<open>frame_count\<close> of them.
\<close>

definition well_formed :: "mesh list \<Rightarrow> int \<Rightarrow> int \<Rightarrow> bool" where
  "well_formed meshes vertex_count frame_count \<longleftrightarrow>
     int (length meshes) = frame_count \<and>
     list_all (\<lambda>me. int (length (vertices me)) = vertex_count) meshes"

text \<open>
  The one-to-one correspondence of corners and vertices that the design assumes: every
  mesh has as many loops as vertices, and loop \<open>c\<close> belongs to vertex \<open>c\<close>.
\<close>

definition corners_match :: "mesh \<Rightarrow> bool" where
  "corners_match me \<longleftrightarrow>
     length (loops me) = length (vertices me) \<and>
     list_all (\<lambda>c. vertex_index (loops me ! c) = c) [0..<length (loops me)]"

text \<open>
  What lets the encoder run to its end: no mesh has more loops than the reference mesh
  (\<^verbatim>\<open>originalL[l.index]\<close>), every loop belongs to a vertex of its mesh, and the frame
  matrix \<^verbatim>\<open>Matrix((N, T, B))\<close> of every loop has an inverse (as that of an orthonormal frame
  has).
\<close>

definition encodable :: "mathutils \<Rightarrow> mesh list \<Rightarrow> bool" where
  "encodable mu meshes \<longleftrightarrow>
     list_all (\<lambda>me.
        length (loops me) \<le> length (loops (hd meshes)) \<and>
        list_all (\<lambda>l.
           vertex_index l < length (vertices me) \<and>
           inverted mu (normalized mu (normal l), normalized mu (tangent l),
             normalized mu (cross mu (normalized mu (normal l)) (normalized mu (tangent l)))) \<noteq> None)
          (loops me)) meshes"

section \<open>Example inputs\<close>

text \<open>
  The example of the specification: three vertices and two frames, every vertex moved by
  one unit along z in the second frame. One corner per vertex, with the same normal and
  tangent in both frames.
\<close>

definition example_loops :: "loop list" where
  "example_loops =
     [\<lparr>vertex_index = 0, normal = (0, 0, 1), tangent = (1, 0, 0)\<rparr>,
      \<lparr>vertex_index = 1, normal = (0, 0, 1), tangent = (1, 0, 0)\<rparr>,
      \<lparr>vertex_index = 2, normal = (0, 0, 1), tangent = (1, 0, 0)\<rparr>]"

definition example_meshes :: "mesh list" where
  "example_meshes =
     [\<lparr>vertices = [(0, 0, 0), (1, 0, 0), (0, 1, 0)], loops = example_loops\<rparr>,
      \<lparr>vertices = [(0, 0, 1), (1, 0, 1), (0, 1, 1)], loops = example_loops\<rparr>]"

definition example_offsets :: "pixel list" where
  "example_offsets =
     [(- 2048, - 2045, - 2046, 1),
      (0, 0, 0, 1), (0, 0, 0, 1), (0, 0, 0, 1),
      (0, 0, 1, 1), (0, 0, 1, 1), (0, 0, 1, 1)]"

definition example_normals :: "pixel list" where
  "example_normals =
     [(- 2048, - 2045, - 2046, 1),
      (0, 0, 0, 1), (0, 0, 0, 1), (0, 0, 0, 1),
      (0, 0, 0, 1), (0, 0, 0, 1), (0, 0, 0, 1)]"

text \<open>
  One vertex with one corner whose tangent turns by a quarter turn about the unchanged
  normal between the reference frame and the second frame.
\<close>

definition twist_meshes :: "mesh list" where
  "twist_meshes =
     [\<lparr>vertices = [(0, 0, 0)],
       loops = [\<lparr>vertex_index = 0, normal = (0, 0, 1), tangent = (1, 0, 0)\<rparr>]\<rparr>,
      \<lparr>vertices = [(0, 0, 0)],
       loops = [\<lparr>vertex_index = 0, normal = (0, 0, 1), tangent = (0, 1, 0)\<rparr>]\<rparr>]"

subsection \<open>Bitwise characterisation of the decoders\<close>

lemma lt16_cases:
  assumes "n < (16::nat)"
  obtains "n = 0" | "n = 1" | "n = 2" | "n = 3" | "n = 4" | "n = 5" | "n = 6" | "n = 7"
    | "n = 8" | "n = 9" | "n = 10" | "n = 11" | "n = 12" | "n = 13" | "n = 14" | "n = 15"
proof -
  have "n = 0 \<or> n = 1 \<or> n = 2 \<or> n = 3 \<or> n = 4 \<or> n = 5 \<or> n = 6 \<or> n = 7
    \<or> n = 8 \<or> n = 9 \<or> n = 10 \<or> n = 11 \<or> n = 12 \<or> n = 13 \<or> n = 14 \<or> n = 15"
    using assms by arith
  then show thesis using that by blast
qed

lemma bit_X_low:
  assumes "n < 16"
  shows "bit (DecodeMorton2X c) n = bit c (2 * n)"
  using assms
  by (cases n rule: lt16_cases)
     (simp_all add: DecodeMorton2X_def Let_def bit_simps numeral_2_eq_2 numeral_3_eq_3)

lemma bit_Y_low:
  assumes "n < 16"
  shows "bit (DecodeMorton2Y c) n = bit c (2 * n + 1)"
  using assms
  by (cases n rule: lt16_cases)
     (simp_all add: DecodeMorton2Y_def Let_def bit_simps numeral_2_eq_2 numeral_3_eq_3)

lemma X_and_mask: "DecodeMorton2X c = DecodeMorton2X c AND mask 16"
  by (simp add: DecodeMorton2X_def Let_def mask_eq_exp_minus_1 and.assoc)

lemma Y_and_mask: "DecodeMorton2Y c = DecodeMorton2Y c AND mask 16"
  by (simp add: DecodeMorton2Y_def Let_def mask_eq_exp_minus_1 and.assoc)

lemma bit_X_high: "16 \<le> n \<Longrightarrow> \<not> bit (DecodeMorton2X c) n"
  by (subst X_and_mask) (simp add: bit_simps)

lemma bit_Y_high: "16 \<le> n \<Longrightarrow> \<not> bit (DecodeMorton2Y c) n"
  by (subst Y_and_mask) (simp add: bit_simps)

lemma X_nonneg: "0 \<le> DecodeMorton2X c"
  unfolding DecodeMorton2X_def Let_def by simp

lemma Y_nonneg: "0 \<le> DecodeMorton2Y c"
  unfolding DecodeMorton2Y_def Let_def by simp

lemma X_le: "DecodeMorton2X c \<le> 0xFFFF"
  unfolding DecodeMorton2X_def Let_def by simp

lemma Y_le: "DecodeMorton2Y c \<le> 0xFFFF"
  unfolding DecodeMorton2Y_def Let_def by simp

lemma bit_even_bits: "bit (even_bits m) n = bit m (2 * n)"
proof (induction m arbitrary: n rule: even_bits.induct)
  case (1 m)
  show ?case
  proof (cases "m = 0")
    case True then show ?thesis by (simp add: even_bits.simps)
  next
    case False
    have eq: "even_bits m = m mod 2 + 2 * even_bits (m div 4)"
      using False by (subst even_bits.simps) simp
    show ?thesis
    proof (cases n)
      case 0
      then show ?thesis unfolding eq by (simp add: bit_0)
    next
      case (Suc k)
      have d: "m div 2 div 2 = m div 4" by arith
      have "bit (even_bits m) (Suc k) = bit (even_bits (m div 4)) k"
        unfolding eq by (simp add: bit_Suc)
      also have "\<dots> = bit (m div 4) (2 * k)" using 1 False by blast
      also have "\<dots> = bit m (2 * Suc k)"
        by (simp add: bit_Suc d)
      finally show ?thesis using Suc by simp
    qed
  qed
qed

lemma bit_odd_bits: "bit (odd_bits m) n = bit m (2 * n + 1)"
  by (simp add: odd_bits_def bit_even_bits bit_Suc)

lemma small_bits_zero:
  assumes "0 \<le> (c::int)" "c < 2 ^ k" "k \<le> n"
  shows "\<not> bit c n"
proof -
  have "take_bit k c = c" using assms by (simp add: take_bit_int_eq_self)
  then have "bit c n = bit (take_bit k c) n" by simp
  then show ?thesis using assms by (simp add: bit_take_bit_iff)
qed

lemma X_eq_even_bits:
  assumes "0 \<le> c" "c < 2 ^ 32"
  shows "DecodeMorton2X c = int (even_bits (nat c))"
proof (rule bit_eqI)
  fix n
  have r: "bit (int (even_bits (nat c))) n = bit c (2 * n)"
    using assms by (simp add: bit_of_nat_iff_bit bit_even_bits bit_nat_iff)
  show "bit (DecodeMorton2X c) n = bit (int (even_bits (nat c))) n"
  proof (cases "n < 16")
    case True then show ?thesis by (simp add: r bit_X_low)
  next
    case False
    then have "\<not> bit c (2 * n)" using small_bits_zero [OF assms, of "2 * n"] by simp
    then show ?thesis using False by (simp add: r bit_X_high)
  qed
qed

lemma Y_eq_odd_bits:
  assumes "0 \<le> c" "c < 2 ^ 32"
  shows "DecodeMorton2Y c = int (odd_bits (nat c))"
proof (rule bit_eqI)
  fix n
  have r: "bit (int (odd_bits (nat c))) n = bit c (2 * n + 1)"
    using assms by (simp add: bit_of_nat_iff_bit bit_odd_bits bit_nat_iff)
  show "bit (DecodeMorton2Y c) n = bit (int (odd_bits (nat c))) n"
  proof (cases "n < 16")
    case True then show ?thesis by (simp add: r bit_Y_low)
  next
    case False
    then have "\<not> bit c (2 * n + 1)" using small_bits_zero [OF assms, of "2 * n + 1"] by simp
    then show ?thesis using False by (simp add: r bit_Y_high)
  qed
qed

lemma morton_inj:
  assumes "0 \<le> i" "i < 2 ^ 32" "0 \<le> j" "j < 2 ^ 32"
    and "DecodeMorton2X i = DecodeMorton2X j" "DecodeMorton2Y i = DecodeMorton2Y j"
  shows "i = j"
proof (rule bit_eqI)
  fix n
  show "bit i n = bit j n"
  proof (cases "n < 32")
    case False
    then show ?thesis
      using small_bits_zero [OF assms(1,2), of n] small_bits_zero [OF assms(3,4), of n] by simp
  next
    case True
    show ?thesis
    proof (cases "even n")
      case True
      then obtain k where k: "n = 2 * k" by (auto elim: evenE)
      with \<open>n < 32\<close> have "k < 16" by simp
      then show ?thesis using bit_X_low [of k i] bit_X_low [of k j] assms(5) k by simp
    next
      case False
      then obtain k where k: "n = 2 * k + 1" by (auto elim: oddE)
      with \<open>n < 32\<close> have "k < 16" by simp
      then show ?thesis using bit_Y_low [of k i] bit_Y_low [of k j] assms(6) k by simp
    qed
  qed
qed

lemma X_small:
  assumes "0 \<le> c" "c < 2 ^ 26"
  shows "DecodeMorton2X c < 2 ^ 13"
proof -
  have "take_bit 13 (DecodeMorton2X c) = DecodeMorton2X c"
  proof (rule bit_eqI)
    fix n
    show "bit (take_bit 13 (DecodeMorton2X c)) n = bit (DecodeMorton2X c) n"
    proof (cases "n < 13")
      case True then show ?thesis by (simp add: bit_take_bit_iff)
    next
      case False
      have "\<not> bit (DecodeMorton2X c) n"
      proof (cases "n < 16")
        case True
        then show ?thesis using small_bits_zero [OF assms, of "2 * n"] False by (simp add: bit_X_low)
      next
        case False then show ?thesis by (simp add: bit_X_high)
      qed
      then show ?thesis by (simp add: bit_take_bit_iff)
    qed
  qed
  then show ?thesis by (metis take_bit_int_less_exp)
qed

lemma vertices_loop_length:
  "vertices_loop mu original s i vs offs = Inr offs' \<Longrightarrow> length offs' = length offs"
  by (induction vs arbitrary: i offs)
     (auto simp: py_getitem_def np_setitem_def Let_def split: sum.splits if_splits)

lemma vertices_loop_other:
  "vertices_loop mu original s i vs offs = Inr offs' \<Longrightarrow> j < s + i \<or> s + i + length vs \<le> j
     \<Longrightarrow> offs' ! j = offs ! j"
proof (induction vs arbitrary: i offs)
  case Nil
  then show ?case by simp
next
  case (Cons co vs)
  from Cons.prems(1) obtain offs1 where
    a: "i < length original" "s + i < length offs"
       "offs1 = offs[s + i := offset_pixel (sub mu co (original ! i))]"
       "vertices_loop mu original s (Suc i) vs offs1 = Inr offs'"
    by (auto simp: py_getitem_def np_setitem_def Let_def split: sum.splits if_splits)
  have "offs' ! j = offs1 ! j"
    using Cons.IH [OF a(4)] Cons.prems(2) by auto
  also have "\<dots> = offs ! j" using a(3) Cons.prems(2) by auto
  finally show ?case .
qed

lemma vertices_loop_slot:
  "vertices_loop mu original s i vs offs = Inr offs' \<Longrightarrow> k < length vs
     \<Longrightarrow> i + k < length original \<and>
         offs' ! (s + i + k) = offset_pixel (sub mu (vs ! k) (original ! (i + k)))"
proof (induction vs arbitrary: i offs k)
  case Nil
  then show ?case by simp
next
  case (Cons co vs)
  from Cons.prems(1) obtain offs1 where
    a: "i < length original" "s + i < length offs"
       "offs1 = offs[s + i := offset_pixel (sub mu co (original ! i))]"
       "vertices_loop mu original s (Suc i) vs offs1 = Inr offs'"
    by (auto simp: py_getitem_def np_setitem_def Let_def split: sum.splits if_splits)
  show ?case
  proof (cases k)
    case 0
    have "offs' ! (s + i) = offs1 ! (s + i)"
      using vertices_loop_other [OF a(4), of "s + i"] by simp
    then show ?thesis using 0 a by simp
  next
    case (Suc k')
    then have "k' < length vs" using Cons.prems(2) by simp
    from Cons.IH [OF a(4) this] show ?thesis using Suc by simp
  qed
qed

lemma loops_loop_length:
  "loops_loop mu originalL s i ls norms = Inr norms' \<Longrightarrow> length norms' = length norms"
  by (induction ls arbitrary: i norms)
     (auto simp: py_getitem_def np_setitem_def split: sum.splits if_splits)

lemma loops_loop_other:
  "loops_loop mu originalL s i ls norms = Inr norms' \<Longrightarrow> \<forall>l \<in> set ls. s + vertex_index l \<noteq> j
     \<Longrightarrow> norms' ! j = norms ! j"
proof (induction ls arbitrary: i norms)
  case Nil
  then show ?case by simp
next
  case (Cons l ls)
  from Cons.prems(1) obtain q norms1 where
    a: "i < length originalL" "loop_quat mu (originalL ! i) l = Inr q"
       "s + vertex_index l < length norms"
       "norms1 = norms[s + vertex_index l := quat_pixel q]"
       "loops_loop mu originalL s (Suc i) ls norms1 = Inr norms'"
    by (auto simp: py_getitem_def np_setitem_def split: sum.splits if_splits)
  have "norms' ! j = norms1 ! j"
    using Cons.IH [OF a(5)] Cons.prems(2) by auto
  also have "\<dots> = norms ! j" using a(4) Cons.prems(2) by auto
  finally show ?case .
qed

lemma loops_loop_slot:
  "loops_loop mu originalL s i ls norms = Inr norms' \<Longrightarrow> k < length ls
     \<Longrightarrow> \<forall>c < length ls. vertex_index (ls ! c) = i + c
     \<Longrightarrow> \<exists>q. i + k < length originalL \<and> loop_quat mu (originalL ! (i + k)) (ls ! k) = Inr q \<and>
         norms' ! (s + i + k) = quat_pixel q"
proof (induction ls arbitrary: i norms k)
  case Nil
  then show ?case by simp
next
  case (Cons l ls)
  from Cons.prems(1) obtain q norms1 where
    a: "i < length originalL" "loop_quat mu (originalL ! i) l = Inr q"
       "s + vertex_index l < length norms"
       "norms1 = norms[s + vertex_index l := quat_pixel q]"
       "loops_loop mu originalL s (Suc i) ls norms1 = Inr norms'"
    by (auto simp: py_getitem_def np_setitem_def split: sum.splits if_splits)
  have vi: "vertex_index l = i" using Cons.prems(3) [rule_format, of 0] by simp
  have rest: "\<forall>c < length ls. vertex_index (ls ! c) = Suc i + c"
  proof (intro allI impI)
    fix c assume "c < length ls"
    then show "vertex_index (ls ! c) = Suc i + c"
      using Cons.prems(3) [rule_format, of "Suc c"] by simp
  qed
  show ?case
  proof (cases k)
    case 0
    have "\<forall>l' \<in> set ls. s + vertex_index l' \<noteq> s + i"
    proof
      fix l' assume "l' \<in> set ls"
      then obtain c where "c < length ls" "ls ! c = l'" by (auto simp: in_set_conv_nth)
      with rest have "vertex_index l' = Suc i + c" by blast
      then show "s + vertex_index l' \<noteq> s + i" by simp
    qed
    from loops_loop_other [OF a(5) this]
    have "norms' ! (s + i) = norms1 ! (s + i)" .
    then show ?thesis using 0 a vi by simp
  next
    case (Suc k')
    then have "k' < length ls" using Cons.prems(2) by simp
    from Cons.IH [OF a(5) this rest] obtain q' where
      q': "Suc i + k' < length originalL" "loop_quat mu (originalL ! (Suc i + k')) (ls ! k') = Inr q'"
          "norms' ! (s + Suc i + k') = quat_pixel q'" by blast
    have e: "i + k = Suc i + k'" "s + i + k = s + Suc i + k'" "(l # ls) ! k = ls ! k'"
      using Suc by simp_all
    show ?thesis unfolding e using q' by blast
  qed
qed

subsection \<open>Capacity checks\<close>

text \<open>
  Claim C6. The vertex check passes at \<open>4096 * 4095\<close> vertices and fails one above it with
  \<open>VertexLimitExceeded\<close>; the frame check passes at 4096 frames and fails at 4097 with
  \<open>FrameLimitExceeded\<close> (for a vertex count that passed its own check, which comes first);
  among the inputs that pass both, exactly those with
  \<open>frame_count * vertex_count + 1 > 8192 * 8192\<close> fail, with \<open>PixelBudgetExceeded\<close>; and
  whenever a check fails, \<open>execute\<close> returns that failure and no texture.
\<close>

theorem C6_capacity:
  "(\<forall>fc. capacity_check (4096 * 4095) fc \<noteq> Some VertexLimitExceeded) \<and>
   capacity_check (4096 * 4095) 4 = None \<and>
   (\<forall>fc. capacity_check (4096 * 4095 + 1) fc = Some VertexLimitExceeded) \<and>
   (\<forall>vc. capacity_check vc 4096 \<noteq> Some FrameLimitExceeded) \<and>
   capacity_check 16383 4096 = None \<and>
   (\<forall>vc. vc \<le> 4096 * 4095 \<longrightarrow> capacity_check vc 4097 = Some FrameLimitExceeded) \<and>
   (\<forall>vc fc. vc \<le> 4096 * 4095 \<and> fc \<le> 4096 \<longrightarrow>
      (capacity_check vc fc = Some PixelBudgetExceeded \<longleftrightarrow> fc * vc + 1 > 8192 * 8192) \<and>
      (capacity_check vc fc = None \<longleftrightarrow> fc * vc + 1 \<le> 8192 * 8192)) \<and>
   (\<forall>vc fc e mu meshes z. capacity_check vc fc = Some e \<longrightarrow>
      e \<in> {VertexLimitExceeded, FrameLimitExceeded, PixelBudgetExceeded} \<and>
      execute mu True vc fc meshes z = Inl e)"
  by (simp add: capacity_check_def execute_def)

theorem C6_capacity_witness:
  "capacity_check 1 4097 = Some FrameLimitExceeded \<and>
   capacity_check 16384 4096 = Some PixelBudgetExceeded \<and>
   execute exact_mathutils True 16384 4096 [] True = Inl PixelBudgetExceeded"
proof -
  have f: "\<forall>vc. vc \<le> 4096 * 4095 \<longrightarrow> capacity_check vc 4097 = Some FrameLimitExceeded"
    using C6_capacity by blast
  have p: "\<forall>vc fc. vc \<le> 4096 * 4095 \<and> fc \<le> 4096 \<longrightarrow>
      (capacity_check vc fc = Some PixelBudgetExceeded \<longleftrightarrow> fc * vc + 1 > 8192 * 8192) \<and>
      (capacity_check vc fc = None \<longleftrightarrow> fc * vc + 1 \<le> 8192 * 8192)"
    using C6_capacity by blast
  have e: "\<forall>vc fc e mu meshes z. capacity_check vc fc = Some e \<longrightarrow>
      e \<in> {VertexLimitExceeded, FrameLimitExceeded, PixelBudgetExceeded} \<and>
      execute mu True vc fc meshes z = Inl e"
    using C6_capacity by blast
  have 1: "capacity_check 1 4097 = Some FrameLimitExceeded"
    using f [rule_format, of 1] by simp
  have 2: "capacity_check 16384 4096 = Some PixelBudgetExceeded"
    using p [rule_format, of 16384 4096] by simp
  have 3: "execute exact_mathutils True 16384 4096 [] True = Inl PixelBudgetExceeded"
    using e [rule_format, OF 2] by simp
  from 1 2 3 show ?thesis by simp
qed

subsection \<open>Morton decoding\<close>

text \<open>
  Claim C7, amended. For every code from 0 up to but not including \<open>2 ^ 32\<close>,
  \<open>DecodeMorton2X\<close> returns the integer formed by the even-position bits of the code and
  \<open>DecodeMorton2Y\<close> the integer formed by its odd-position bits; the codes 0, 1, 2 and 3
  decode to (0,0), (1,0), (0,1) and (1,1).
\<close>

theorem C7_morton_decode:
  "(\<forall>code. 0 \<le> code \<and> code < 2 ^ 32 \<longrightarrow>
      DecodeMorton2X code = int (even_bits (nat code)) \<and>
      DecodeMorton2Y code = int (odd_bits (nat code))) \<and>
   (DecodeMorton2X 0, DecodeMorton2Y 0) = (0, 0) \<and>
   (DecodeMorton2X 1, DecodeMorton2Y 1) = (1, 0) \<and>
   (DecodeMorton2X 2, DecodeMorton2Y 2) = (0, 1) \<and>
   (DecodeMorton2X 3, DecodeMorton2Y 3) = (1, 1)"
proof -
  have "\<forall>code. 0 \<le> code \<and> code < 2 ^ 32 \<longrightarrow>
      DecodeMorton2X code = int (even_bits (nat code)) \<and>
      DecodeMorton2Y code = int (odd_bits (nat code))"
    using X_eq_even_bits Y_eq_odd_bits by blast
  moreover have "(DecodeMorton2X 0, DecodeMorton2Y 0) = (0, 0)"
    by (simp add: DecodeMorton2X_def DecodeMorton2Y_def)
  moreover have "(DecodeMorton2X 1, DecodeMorton2Y 1) = (1, 0)"
    by (simp add: DecodeMorton2X_def DecodeMorton2Y_def)
  moreover have "(DecodeMorton2X 2, DecodeMorton2Y 2) = (0, 1)"
    by (simp add: DecodeMorton2X_def DecodeMorton2Y_def)
  moreover have "(DecodeMorton2X 3, DecodeMorton2Y 3) = (1, 1)"
    by (simp add: DecodeMorton2X_def DecodeMorton2Y_def)
  ultimately show ?thesis by blast
qed

theorem C7_morton_decode_witness:
  "(0::int) \<le> 6 \<and> (6::int) < 2 ^ 32 \<and> DecodeMorton2X 6 = 2 \<and> int (even_bits (nat 6)) = 2 \<and>
   DecodeMorton2Y 6 = 1 \<and> int (odd_bits (nat 6)) = 1"
proof -
  have h: "(0::int) \<le> 6 \<and> (6::int) < 2 ^ 32" by simp
  have "DecodeMorton2X 6 = int (even_bits (nat 6)) \<and> DecodeMorton2Y 6 = int (odd_bits (nat 6))"
    using C7_morton_decode h by blast
  moreover have "DecodeMorton2X 6 = 2" "DecodeMorton2Y 6 = 1"
    by (simp_all add: DecodeMorton2X_def DecodeMorton2Y_def)
  ultimately show ?thesis using h by simp
qed

text \<open>
  The claim as stated, for every non-negative code, fails from \<open>2 ^ 32\<close> on: bit 32 is an
  even-position bit, and the first mask drops it.
\<close>

theorem C7_counterexample:
  "(0::int) \<le> 2 ^ 32 \<and> DecodeMorton2X (2 ^ 32) = 0 \<and> int (even_bits (nat (2 ^ 32))) = 65536"
  by (simp add: DecodeMorton2X_def even_bits.simps)

subsection \<open>The loop over the frames\<close>

lemma frames_loop_Cons_Inr:
  assumes "frames_loop mu orig origL (me # ms) s offs norms = Inr (offs', norms')"
  obtains offs1 norms1 where
    "vertices_loop mu orig s 0 (vertices me) offs = Inr offs1"
    "loops_loop mu origL s 0 (loops me) norms = Inr norms1"
    "frames_loop mu orig origL ms (s + length (vertices me)) offs1 norms1 = Inr (offs', norms')"
  using assms by (auto split: sum.splits)

lemma frames_loop_length:
  "frames_loop mu orig origL ms s offs norms = Inr (offs', norms')
     \<Longrightarrow> length offs' = length offs \<and> length norms' = length norms"
proof (induction ms arbitrary: s offs norms)
  case Nil
  then show ?case by simp
next
  case (Cons me ms)
  from Cons.prems obtain offs1 norms1 where
    a: "vertices_loop mu orig s 0 (vertices me) offs = Inr offs1"
       "loops_loop mu origL s 0 (loops me) norms = Inr norms1"
       "frames_loop mu orig origL ms (s + length (vertices me)) offs1 norms1 = Inr (offs', norms')"
    by (rule frames_loop_Cons_Inr)
  show ?case
    using Cons.IH [OF a(3)] vertices_loop_length [OF a(1)] loops_loop_length [OF a(2)] by simp
qed

lemma frames_loop_low:
  "frames_loop mu orig origL ms s offs norms = Inr (offs', norms') \<Longrightarrow> j < s
     \<Longrightarrow> offs' ! j = offs ! j \<and> norms' ! j = norms ! j"
proof (induction ms arbitrary: s offs norms)
  case Nil
  then show ?case by simp
next
  case (Cons me ms)
  from Cons.prems(1) obtain offs1 norms1 where
    a: "vertices_loop mu orig s 0 (vertices me) offs = Inr offs1"
       "loops_loop mu origL s 0 (loops me) norms = Inr norms1"
       "frames_loop mu orig origL ms (s + length (vertices me)) offs1 norms1 = Inr (offs', norms')"
    by (rule frames_loop_Cons_Inr)
  have "j < s + length (vertices me)" using Cons.prems(2) by simp
  from Cons.IH [OF a(3) this] have 1: "offs' ! j = offs1 ! j" "norms' ! j = norms1 ! j"
    by simp_all
  have 2: "offs1 ! j = offs ! j"
    using vertices_loop_other [OF a(1), of j] Cons.prems(2) by simp
  have "\<forall>l \<in> set (loops me). s + vertex_index l \<noteq> j" using Cons.prems(2) by simp
  from loops_loop_other [OF a(2) this] have 3: "norms1 ! j = norms ! j" .
  from 1 2 3 show ?case by simp
qed

lemma frames_loop_offsets_slot:
  "frames_loop mu orig origL ms s offs norms = Inr (offs', norms')
     \<Longrightarrow> \<forall>me \<in> set ms. length (vertices me) = n \<Longrightarrow> f < length ms \<Longrightarrow> v < n
     \<Longrightarrow> v < length orig \<and>
         offs' ! (s + f * n + v) = offset_pixel (sub mu (vertices (ms ! f) ! v) (orig ! v))"
proof (induction ms arbitrary: s offs norms f)
  case Nil
  then show ?case by simp
next
  case (Cons me ms)
  from Cons.prems(1) obtain offs1 norms1 where
    a: "vertices_loop mu orig s 0 (vertices me) offs = Inr offs1"
       "loops_loop mu origL s 0 (loops me) norms = Inr norms1"
       "frames_loop mu orig origL ms (s + length (vertices me)) offs1 norms1 = Inr (offs', norms')"
    by (rule frames_loop_Cons_Inr)
  have n: "length (vertices me) = n" using Cons.prems(2) by simp
  show ?case
  proof (cases f)
    case 0
    have "v < length (vertices me)" using Cons.prems(4) n by simp
    from vertices_loop_slot [OF a(1) this]
    have 1: "v < length orig" "offs1 ! (s + v) = offset_pixel (sub mu (vertices me ! v) (orig ! v))"
      by simp_all
    have "s + v < s + length (vertices me)" using Cons.prems(4) n by simp
    from frames_loop_low [OF a(3) this] have "offs' ! (s + v) = offs1 ! (s + v)" by simp
    then show ?thesis using 0 1 by simp
  next
    case (Suc f')
    have r: "\<forall>me \<in> set ms. length (vertices me) = n" using Cons.prems(2) by simp
    have f': "f' < length ms" using Cons.prems(3) Suc by simp
    have e: "s + f * n + v = s + length (vertices me) + f' * n + v" "(me # ms) ! f = ms ! f'"
      using Suc n by simp_all
    show ?thesis unfolding e using Cons.IH [OF a(3) r f' Cons.prems(4)] .
  qed
qed

lemma corners_match_nth:
  "corners_match me \<Longrightarrow> c < length (loops me) \<Longrightarrow> vertex_index (loops me ! c) = c"
  by (simp add: corners_match_def list_all_iff)

lemma frames_loop_normals_slot:
  "frames_loop mu orig origL ms s offs norms = Inr (offs', norms')
     \<Longrightarrow> \<forall>me \<in> set ms. length (vertices me) = n \<and> corners_match me \<Longrightarrow> f < length ms \<Longrightarrow> c < n
     \<Longrightarrow> \<exists>q. c < length origL \<and> loop_quat mu (origL ! c) (loops (ms ! f) ! c) = Inr q \<and>
         norms' ! (s + f * n + c) = quat_pixel q"
proof (induction ms arbitrary: s offs norms f)
  case Nil
  then show ?case by simp
next
  case (Cons me ms)
  from Cons.prems(1) obtain offs1 norms1 where
    a: "vertices_loop mu orig s 0 (vertices me) offs = Inr offs1"
       "loops_loop mu origL s 0 (loops me) norms = Inr norms1"
       "frames_loop mu orig origL ms (s + length (vertices me)) offs1 norms1 = Inr (offs', norms')"
    by (rule frames_loop_Cons_Inr)
  have n: "length (vertices me) = n" and cm: "corners_match me" using Cons.prems(2) by simp_all
  have nl: "length (loops me) = n" using cm n by (simp add: corners_match_def)
  show ?case
  proof (cases f)
    case 0
    have c: "c < length (loops me)" using Cons.prems(4) nl by simp
    have "\<forall>c < length (loops me). vertex_index (loops me ! c) = 0 + c"
      using cm by (simp add: corners_match_nth)
    from loops_loop_slot [OF a(2) c this] obtain q where
      q: "c < length origL" "loop_quat mu (origL ! c) (loops me ! c) = Inr q"
         "norms1 ! (s + c) = quat_pixel q" by auto
    have "s + c < s + length (vertices me)" using Cons.prems(4) n by simp
    from frames_loop_low [OF a(3) this] have "norms' ! (s + c) = norms1 ! (s + c)" by simp
    then show ?thesis using 0 q by simp
  next
    case (Suc f')
    have r: "\<forall>me \<in> set ms. length (vertices me) = n \<and> corners_match me"
      using Cons.prems(2) by simp
    have f': "f' < length ms" using Cons.prems(3) Suc by simp
    have e: "s + f * n + c = s + length (vertices me) + f' * n + c" "(me # ms) ! f = ms ! f'"
      using Suc n by simp_all
    show ?thesis unfolding e using Cons.IH [OF a(3) r f' Cons.prems(4)] .
  qed
qed

subsection \<open>\<^verbatim>\<open>get_vertex_data\<close>\<close>

lemma get_vertex_data_Inr:
  assumes "get_vertex_data mu meshes vc fc = Inr (offsets, normals)"
  obtains m0 ms where "meshes = m0 # ms"
    "frames_loop mu (vertices m0) (loops m0) meshes 1
       ((replicate (length (vertices m0) * length meshes + 1) zero_pixel)[0 := header vc fc])
       ((replicate (length (vertices m0) * length meshes + 1) zero_pixel)[0 := header vc fc])
     = Inr (offsets, normals)"
proof (cases meshes)
  case Nil
  with assms show thesis by (simp add: get_vertex_data_def)
next
  case (Cons m0 ms)
  show thesis
  proof (rule that [OF Cons])
    show "frames_loop mu (vertices m0) (loops m0) meshes 1
       ((replicate (length (vertices m0) * length meshes + 1) zero_pixel)[0 := header vc fc])
       ((replicate (length (vertices m0) * length meshes + 1) zero_pixel)[0 := header vc fc])
     = Inr (offsets, normals)"
      using assms unfolding get_vertex_data_def Let_def Cons list.case .
  qed
qed

lemma get_vertex_data_length:
  assumes "get_vertex_data mu meshes vc fc = Inr (offsets, normals)"
  shows "length offsets = length (vertices (hd meshes)) * length meshes + 1"
    and "length normals = length (vertices (hd meshes)) * length meshes + 1"
proof -
  from assms obtain m0 ms where m: "meshes = m0 # ms" and
    fl: "frames_loop mu (vertices m0) (loops m0) meshes 1
       ((replicate (length (vertices m0) * length meshes + 1) zero_pixel)[0 := header vc fc])
       ((replicate (length (vertices m0) * length meshes + 1) zero_pixel)[0 := header vc fc])
     = Inr (offsets, normals)"
    by (rule get_vertex_data_Inr)
  from frames_loop_length [OF fl] m
  show "length offsets = length (vertices (hd meshes)) * length meshes + 1"
    and "length normals = length (vertices (hd meshes)) * length meshes + 1" by simp_all
qed

lemma get_vertex_data_header:
  assumes "get_vertex_data mu meshes vc fc = Inr (offsets, normals)"
  shows "offsets ! 0 = header vc fc" and "normals ! 0 = header vc fc"
proof -
  from assms obtain m0 ms where m: "meshes = m0 # ms" and
    fl: "frames_loop mu (vertices m0) (loops m0) meshes 1
       ((replicate (length (vertices m0) * length meshes + 1) zero_pixel)[0 := header vc fc])
       ((replicate (length (vertices m0) * length meshes + 1) zero_pixel)[0 := header vc fc])
     = Inr (offsets, normals)"
    by (rule get_vertex_data_Inr)
  from frames_loop_low [OF fl, of 0]
  show "offsets ! 0 = header vc fc" and "normals ! 0 = header vc fc" by simp_all
qed

section \<open>The Z-curve layout\<close>

subsection \<open>Texture size\<close>

lemma py_max_eq:
  assumes "xs \<noteq> []"
  shows "py_max xs = Inr (Max (set xs))"
proof (cases xs)
  case Nil
  with assms show ?thesis by simp
next
  case (Cons a list)
  have "fold max list a = Max (set (a # list))" by (rule Max.set_eq_fold [symmetric])
  then show ?thesis unfolding Cons by (simp del: set_simps)
qed

lemma ceil_to_ge:
  assumes "0 < g"
  shows "m \<le> ceil_to m g"
proof -
  have "real_of_int m / real_of_int g \<le> of_int \<lceil>real_of_int m / real_of_int g\<rceil>"
    by (rule le_of_int_ceiling)
  moreover have gpos: "0 < real_of_int g" using assms by simp
  ultimately have "real_of_int m \<le> of_int \<lceil>real_of_int m / real_of_int g\<rceil> * real_of_int g"
    using pos_divide_le_eq [OF gpos, of "real_of_int m" "of_int \<lceil>real_of_int m / real_of_int g\<rceil>"]
    by blast
  then have "real_of_int m \<le> real_of_int (\<lceil>real_of_int m / real_of_int g\<rceil> * g)"
    by (simp only: of_int_mult)
  then show ?thesis unfolding ceil_to_def by (simp only: of_int_le_iff)
qed

lemma ceil_to_le:
  assumes "0 < g" "m \<le> k * g"
  shows "ceil_to m g \<le> k * g"
proof -
  have "real_of_int m \<le> real_of_int k * real_of_int g"
    using assms(2) by (metis of_int_le_iff of_int_mult)
  moreover have gpos: "0 < real_of_int g" using assms(1) by simp
  ultimately have "real_of_int m / real_of_int g \<le> real_of_int k"
    using pos_divide_le_eq [OF gpos, of "real_of_int m" "real_of_int k"] by blast
  then have "\<lceil>real_of_int m / real_of_int g\<rceil> \<le> k" by (rule ceiling_le)
  then show ?thesis unfolding ceil_to_def using assms(1) by simp
qed

lemma zcurve_size_eq:
  assumes "0 < n"
  shows "zcurve_size n =
    Inr (ceil_to (Max ((\<lambda>idx. DecodeMorton2X (int idx)) ` {0..<n}) + 1) 32,
         ceil_to (Max ((\<lambda>idx. DecodeMorton2Y (int idx)) ` {0..<n}) + 1) 32)"
proof -
  have ne: "map f [0..<n] \<noteq> []" for f :: "nat \<Rightarrow> int" using assms by simp
  show ?thesis
    unfolding zcurve_size_def py_max_eq [OF ne]
    by (simp add: imageWidthGranularity_def imageHeightGranularity_def)
qed

lemma X_lt_width:
  assumes "idx < n"
  shows "DecodeMorton2X (int idx) < ceil_to (Max ((\<lambda>idx. DecodeMorton2X (int idx)) ` {0..<n}) + 1) 32"
proof -
  have "DecodeMorton2X (int idx) \<le> Max ((\<lambda>idx. DecodeMorton2X (int idx)) ` {0..<n})"
    using assms by (intro Max_ge) auto
  then have "DecodeMorton2X (int idx) < Max ((\<lambda>idx. DecodeMorton2X (int idx)) ` {0..<n}) + 1"
    by simp
  also have "\<dots> \<le> ceil_to (Max ((\<lambda>idx. DecodeMorton2X (int idx)) ` {0..<n}) + 1) 32"
    by (rule ceil_to_ge) simp
  finally show ?thesis .
qed

lemma Y_lt_height:
  assumes "idx < n"
  shows "DecodeMorton2Y (int idx) < ceil_to (Max ((\<lambda>idx. DecodeMorton2Y (int idx)) ` {0..<n}) + 1) 32"
proof -
  have "DecodeMorton2Y (int idx) \<le> Max ((\<lambda>idx. DecodeMorton2Y (int idx)) ` {0..<n})"
    using assms by (intro Max_ge) auto
  then have "DecodeMorton2Y (int idx) < Max ((\<lambda>idx. DecodeMorton2Y (int idx)) ` {0..<n}) + 1"
    by simp
  also have "\<dots> \<le> ceil_to (Max ((\<lambda>idx. DecodeMorton2Y (int idx)) ` {0..<n}) + 1) 32"
    by (rule ceil_to_ge) simp
  finally show ?thesis .
qed

lemma Y_small:
  assumes "0 \<le> c" "c < 2 ^ 26"
  shows "DecodeMorton2Y c < 2 ^ 13"
proof -
  have "take_bit 13 (DecodeMorton2Y c) = DecodeMorton2Y c"
  proof (rule bit_eqI)
    fix n
    show "bit (take_bit 13 (DecodeMorton2Y c)) n = bit (DecodeMorton2Y c) n"
    proof (cases "n < 13")
      case True then show ?thesis by (simp add: bit_take_bit_iff)
    next
      case False
      have "\<not> bit (DecodeMorton2Y c) n"
      proof (cases "n < 16")
        case True
        then show ?thesis
          using small_bits_zero [OF assms, of "2 * n + 1"] False by (simp add: bit_Y_low)
      next
        case False then show ?thesis by (simp add: bit_Y_high)
      qed
      then show ?thesis by (simp add: bit_take_bit_iff)
    qed
  qed
  then show ?thesis by (metis take_bit_int_less_exp)
qed

lemma width_le_8192:
  assumes "0 < n" "n \<le> 8192 * 8192"
  shows "ceil_to (Max ((\<lambda>idx. DecodeMorton2X (int idx)) ` {0..<n}) + 1) 32 \<le> 8192"
proof -
  have "\<forall>a \<in> (\<lambda>idx. DecodeMorton2X (int idx)) ` {0..<n}. a < 2 ^ 13"
  proof
    fix a assume "a \<in> (\<lambda>idx. DecodeMorton2X (int idx)) ` {0..<n}"
    then obtain idx where idx: "idx < n" "a = DecodeMorton2X (int idx)" by auto
    have "int idx < 2 ^ 26" using idx(1) assms(2) by simp
    then show "a < 2 ^ 13" unfolding idx(2) by (intro X_small) simp_all
  qed
  moreover have "(\<lambda>idx. DecodeMorton2X (int idx)) ` {0..<n} \<noteq> {}" using assms(1) by simp
  ultimately have "Max ((\<lambda>idx. DecodeMorton2X (int idx)) ` {0..<n}) < 2 ^ 13"
    by (subst Max_less_iff) simp_all
  then have "Max ((\<lambda>idx. DecodeMorton2X (int idx)) ` {0..<n}) + 1 \<le> 256 * 32" by simp
  from ceil_to_le [OF _ this] show ?thesis by simp
qed

lemma height_le_8192:
  assumes "0 < n" "n \<le> 8192 * 8192"
  shows "ceil_to (Max ((\<lambda>idx. DecodeMorton2Y (int idx)) ` {0..<n}) + 1) 32 \<le> 8192"
proof -
  have "\<forall>a \<in> (\<lambda>idx. DecodeMorton2Y (int idx)) ` {0..<n}. a < 2 ^ 13"
  proof
    fix a assume "a \<in> (\<lambda>idx. DecodeMorton2Y (int idx)) ` {0..<n}"
    then obtain idx where idx: "idx < n" "a = DecodeMorton2Y (int idx)" by auto
    have "int idx < 2 ^ 26" using idx(1) assms(2) by simp
    then show "a < 2 ^ 13" unfolding idx(2) by (intro Y_small) simp_all
  qed
  moreover have "(\<lambda>idx. DecodeMorton2Y (int idx)) ` {0..<n} \<noteq> {}" using assms(1) by simp
  ultimately have "Max ((\<lambda>idx. DecodeMorton2Y (int idx)) ` {0..<n}) < 2 ^ 13"
    by (subst Max_less_iff) simp_all
  then have "Max ((\<lambda>idx. DecodeMorton2Y (int idx)) ` {0..<n}) + 1 \<le> 256 * 32" by simp
  from ceil_to_le [OF _ this] show ?thesis by simp
qed

subsection \<open>The library operations in exact arithmetic\<close>

lemma exact_ops:
  "sub exact_mathutils = vec_sub" "normalized exact_mathutils = vec_normalized"
  "cross exact_mathutils = vec_cross" "inverted exact_mathutils = mat_inverted"
  "matmul exact_mathutils = mat_mul" "to_quaternion exact_mathutils = mat_to_quaternion"
  by (simp_all add: exact_mathutils_def)

lemma four_squares_pos:
  fixes a b c d :: real
  assumes "a \<noteq> 0 \<or> b \<noteq> 0 \<or> c \<noteq> 0 \<or> d \<noteq> 0"
  shows "0 < a * a + b * b + c * c + d * d"
proof -
  have "0 \<le> a * a" "0 \<le> b * b" "0 \<le> c * c" "0 \<le> d * d" by simp_all
  moreover have "0 < a * a \<or> 0 < b * b \<or> 0 < c * c \<or> 0 < d * d"
    using assms by (auto simp: zero_less_mult_iff)
  ultimately show ?thesis by linarith
qed

lemma norm_sq_pos:
  "w \<noteq> 0 \<Longrightarrow> 0 < quat_norm_sq (Quaternion w x y z)"
  "x \<noteq> 0 \<Longrightarrow> 0 < quat_norm_sq (Quaternion w x y z)"
  "y \<noteq> 0 \<Longrightarrow> 0 < quat_norm_sq (Quaternion w x y z)"
  "z \<noteq> 0 \<Longrightarrow> 0 < quat_norm_sq (Quaternion w x y z)"
  unfolding quat_norm_sq_def quaternion.sel by (rule four_squares_pos, simp)+

lemma signed_root_nonzero:
  fixes t :: real
  assumes "0 < t"
  shows "(if b then - (2 * sqrt t) else 2 * sqrt t) / 4 \<noteq> 0"
  using assms by simp

lemma raw_quaternion_nonzero: "0 < quat_norm_sq (raw_quaternion m)"
proof -
  obtain m00 m01 m02 m10 m11 m12 m20 m21 m22 where
    m: "m = ((m00, m01, m02), (m10, m11, m12), (m20, m21, m22))"
    by (metis prod_cases3)
  show ?thesis
  proof (cases "m22 < 0")
    case neg: True
    show ?thesis
    proof (cases "m00 > m11")
      case True
      define s where "s = (if m21 < m12 then - (2 * sqrt (1 + m00 - m11 - m22))
                           else 2 * sqrt (1 + m00 - m11 - m22))"
      have r: "raw_quaternion m
          = Quaternion ((m21 - m12) / s) (s / 4) ((m01 + m10) / s) ((m02 + m20) / s)"
        using neg True by (simp add: m raw_quaternion_def Let_def s_def)
      have "0 < 1 + m00 - m11 - m22" using neg True by linarith
      then have "s / 4 \<noteq> 0" unfolding s_def by (rule signed_root_nonzero)
      then show ?thesis unfolding r by (rule norm_sq_pos(2))
    next
      case False
      define s where "s = (if m02 < m20 then - (2 * sqrt (1 - m00 + m11 - m22))
                           else 2 * sqrt (1 - m00 + m11 - m22))"
      have r: "raw_quaternion m
          = Quaternion ((m02 - m20) / s) ((m01 + m10) / s) (s / 4) ((m12 + m21) / s)"
        using neg False by (simp add: m raw_quaternion_def Let_def s_def)
      have "0 < 1 - m00 + m11 - m22" using neg False by linarith
      then have "s / 4 \<noteq> 0" unfolding s_def by (rule signed_root_nonzero)
      then show ?thesis unfolding r by (rule norm_sq_pos(3))
    qed
  next
    case pos: False
    show ?thesis
    proof (cases "m00 < - m11")
      case True
      define s where "s = (if m10 < m01 then - (2 * sqrt (1 - m00 - m11 + m22))
                           else 2 * sqrt (1 - m00 - m11 + m22))"
      have r: "raw_quaternion m
          = Quaternion ((m10 - m01) / s) ((m02 + m20) / s) ((m12 + m21) / s) (s / 4)"
        using pos True by (simp add: m raw_quaternion_def Let_def s_def)
      have "0 < 1 - m00 - m11 + m22" using pos True by linarith
      then have "s / 4 \<noteq> 0" unfolding s_def by (rule signed_root_nonzero)
      then show ?thesis unfolding r by (rule norm_sq_pos(4))
    next
      case False
      define s where "s = 2 * sqrt (1 + m00 + m11 + m22)"
      have r: "raw_quaternion m
          = Quaternion (s / 4) ((m21 - m12) / s) ((m02 - m20) / s) ((m10 - m01) / s)"
        using pos False by (simp add: m raw_quaternion_def Let_def s_def)
      have "0 < 1 + m00 + m11 + m22" using pos False by linarith
      then have "s / 4 \<noteq> 0" unfolding s_def by simp
      then show ?thesis unfolding r by (rule norm_sq_pos(1))
    qed
  qed
qed

lemma quat_unit_normalized:
  assumes "0 < quat_norm_sq q"
  shows "quat_unit (quat_normalized q)"
proof -
  define S where "S = quat_norm_sq q"
  define len where "len = sqrt S"
  have S: "0 < S" using assms by (simp add: S_def)
  then have len: "len \<noteq> 0" and ll: "len * len = S" by (simp_all add: len_def)
  have n: "quat_normalized q
      = Quaternion (quat_w q / len) (quat_x q / len) (quat_y q / len) (quat_z q / len)"
    using len by (simp add: quat_normalized_def Let_def len_def S_def)
  have "quat_norm_sq (quat_normalized q)
      = (quat_w q * quat_w q + quat_x q * quat_x q + quat_y q * quat_y q + quat_z q * quat_z q)
          / (len * len)"
    unfolding n by (simp add: quat_norm_sq_def add_divide_distrib)
  also have "\<dots> = S / S" unfolding ll by (simp add: S_def quat_norm_sq_def)
  also have "\<dots> = 1" using S by simp
  finally show ?thesis by (simp add: quat_unit_def)
qed

lemma mat_to_quaternion_unit: "quat_unit (mat_to_quaternion m)"
  unfolding mat_to_quaternion_def by (rule quat_unit_normalized [OF raw_quaternion_nonzero])

lemma exact_to_quaternion_unit: "\<forall>m. quat_unit (to_quaternion exact_mathutils m)"
  by (simp add: exact_ops mat_to_quaternion_unit)

lemma frame_matrix_example:
  "frame_matrix exact_mathutils \<lparr>vertex_index = i, normal = (0, 0, 1), tangent = (1, 0, 0)\<rparr>
     = ((0, 0, 1), (1, 0, 0), (0, 1, 0))"
  by (simp add: frame_matrix_def exact_ops vec_normalized_def vec_cross_def)

lemma frame_matrix_twist:
  "frame_matrix exact_mathutils \<lparr>vertex_index = i, normal = (0, 0, 1), tangent = (0, 1, 0)\<rparr>
     = ((0, 0, 1), (0, 1, 0), (- 1, 0, 0))"
  by (simp add: frame_matrix_def exact_ops vec_normalized_def vec_cross_def)

lemma mat_to_quaternion_identity:
  "mat_to_quaternion ((1, 0, 0), (0, 1, 0), (0, 0, 1)) = Quaternion 1 0 0 0"
  by (simp add: mat_to_quaternion_def raw_quaternion_def quat_normalized_def quat_norm_sq_def)

lemma loop_quat_example:
  "loop_quat exact_mathutils \<lparr>vertex_index = i, normal = (0, 0, 1), tangent = (1, 0, 0)\<rparr>
      \<lparr>vertex_index = j, normal = (0, 0, 1), tangent = (1, 0, 0)\<rparr> = Inr (Quaternion 1 0 0 0)"
  unfolding loop_quat_def frame_matrix_example Let_def
  by (simp add: exact_ops mat_inverted_def mat_det_def mat_mul_def vec_dot_def
      mat_to_quaternion_identity)

lemma raw_quaternion_quarter_turn:
  "raw_quaternion ((0, - 1, 0), (1, 0, 0), (0, 0, 1)) = Quaternion (sqrt 2 / 2) 0 0 (1 / sqrt 2)"
  by (simp add: raw_quaternion_def)

lemma mat_to_quaternion_quarter_turn:
  "mat_to_quaternion ((0, - 1, 0), (1, 0, 0), (0, 0, 1)) = Quaternion (sqrt 2 / 2) 0 0 (1 / sqrt 2)"
proof -
  have "quat_norm_sq (Quaternion (sqrt 2 / 2) 0 0 (1 / sqrt 2)) = 1"
    by (simp add: quat_norm_sq_def)
  then show ?thesis
    by (simp add: mat_to_quaternion_def raw_quaternion_quarter_turn quat_normalized_def)
qed

lemma loop_quat_twist:
  "loop_quat exact_mathutils \<lparr>vertex_index = i, normal = (0, 0, 1), tangent = (1, 0, 0)\<rparr>
      \<lparr>vertex_index = j, normal = (0, 0, 1), tangent = (0, 1, 0)\<rparr>
     = Inr (Quaternion (sqrt 2 / 2) 0 0 (1 / sqrt 2))"
  unfolding loop_quat_def frame_matrix_example frame_matrix_twist Let_def
  by (simp add: exact_ops mat_inverted_def mat_det_def mat_mul_def vec_dot_def
      mat_to_quaternion_quarter_turn)

lemma get_vertex_data_example:
  "get_vertex_data exact_mathutils example_meshes 3 2 = Inr (example_offsets, example_normals)"
  by (simp add: get_vertex_data_def example_meshes_def example_loops_def example_offsets_def
      example_normals_def Let_def header_def zero_pixel_def numeral_eq_Suc
      py_getitem_def np_setitem_def exact_ops(1) vec_sub_def offset_pixel_def quat_pixel_def
      loop_quat_example)

lemma well_formed_example: "well_formed example_meshes 3 2"
  by (simp add: well_formed_def example_meshes_def)

lemma corners_match_example: "list_all corners_match example_meshes"
  by (simp add: corners_match_def example_meshes_def example_loops_def upt_rec)

lemma get_vertex_data_twist:
  "get_vertex_data exact_mathutils twist_meshes 1 2 =
     Inr ([(- 2048, - 2047, - 2046, 1), (0, 0, 0, 1), (0, 0, 0, 1)],
          [(- 2048, - 2047, - 2046, 1), (0, 0, 0, 1), (0, 0, 1 / sqrt 2, sqrt 2 / 2)])"
  by (simp add: get_vertex_data_def twist_meshes_def Let_def header_def zero_pixel_def
      numeral_eq_Suc py_getitem_def np_setitem_def exact_ops(1) vec_sub_def offset_pixel_def
      quat_pixel_def loop_quat_example loop_quat_twist)

section \<open>The encoder returns\<close>

lemma vertices_loop_total:
  "i + length vs \<le> length original \<Longrightarrow> s + i + length vs \<le> length offs
     \<Longrightarrow> \<exists>offs'. vertices_loop mu original s i vs offs = Inr offs'"
proof (induction vs arbitrary: i offs)
  case Nil
  then show ?case by simp
next
  case (Cons co vs)
  let ?offs1 = "offs[s + i := offset_pixel (sub mu co (original ! i))]"
  have "Suc i + length vs \<le> length original" "s + Suc i + length vs \<le> length ?offs1"
    using Cons.prems by simp_all
  from Cons.IH [OF this] obtain offs' where
    "vertices_loop mu original s (Suc i) vs ?offs1 = Inr offs'" by blast
  then show ?case using Cons.prems by (simp add: py_getitem_def np_setitem_def Let_def)
qed

lemma loops_loop_total:
  "i + length ls \<le> length originalL
     \<Longrightarrow> \<forall>l \<in> set ls. s + vertex_index l < length norms \<and> inverted mu (frame_matrix mu l) \<noteq> None
     \<Longrightarrow> \<exists>norms'. loops_loop mu originalL s i ls norms = Inr norms'"
proof (induction ls arbitrary: i norms)
  case Nil
  then show ?case by simp
next
  case (Cons l ls)
  from Cons.prems(2) obtain Mi where Mi: "inverted mu (frame_matrix mu l) = Some Mi" by auto
  define q where "q = to_quaternion mu (matmul mu Mi (frame_matrix mu (originalL ! i)))"
  have lq: "loop_quat mu (originalL ! i) l = Inr q"
    by (simp add: loop_quat_def Mi q_def)
  let ?norms1 = "norms[s + vertex_index l := quat_pixel q]"
  have "Suc i + length ls \<le> length originalL" using Cons.prems(1) by simp
  moreover have "\<forall>l \<in> set ls. s + vertex_index l < length ?norms1 \<and>
      inverted mu (frame_matrix mu l) \<noteq> None"
    using Cons.prems(2) by simp
  ultimately obtain norms' where
    "loops_loop mu originalL s (Suc i) ls ?norms1 = Inr norms'"
    using Cons.IH by blast
  then show ?case using Cons.prems lq by (simp add: py_getitem_def np_setitem_def)
qed

lemma frames_loop_total:
  "\<forall>me \<in> set ms. length (vertices me) = length orig \<and> length (loops me) \<le> length origL \<and>
       (\<forall>l \<in> set (loops me). vertex_index l < length orig \<and>
          inverted mu (frame_matrix mu l) \<noteq> None)
     \<Longrightarrow> s + length ms * length orig \<le> length offs \<Longrightarrow> length norms = length offs
     \<Longrightarrow> \<exists>offs' norms'. frames_loop mu orig origL ms s offs norms = Inr (offs', norms')"
proof (induction ms arbitrary: s offs norms)
  case Nil
  then show ?case by simp
next
  case (Cons me ms)
  have me: "length (vertices me) = length orig" "length (loops me) \<le> length origL"
    "\<forall>l \<in> set (loops me). vertex_index l < length orig \<and> inverted mu (frame_matrix mu l) \<noteq> None"
    using Cons.prems(1) by simp_all
  have room: "s + length orig + length ms * length orig \<le> length offs"
    using Cons.prems(2) by simp
  have "0 + length (vertices me) \<le> length orig" "s + 0 + length (vertices me) \<le> length offs"
    using me(1) room by simp_all
  from vertices_loop_total [OF this] obtain offs1 where
    v: "vertices_loop mu orig s 0 (vertices me) offs = Inr offs1" by blast
  have "0 + length (loops me) \<le> length origL" using me(2) by simp
  moreover have "\<forall>l \<in> set (loops me). s + vertex_index l < length norms \<and>
      inverted mu (frame_matrix mu l) \<noteq> None"
  proof
    fix l assume "l \<in> set (loops me)"
    with me(3) have "vertex_index l < length orig" "inverted mu (frame_matrix mu l) \<noteq> None"
      by simp_all
    then show "s + vertex_index l < length norms \<and> inverted mu (frame_matrix mu l) \<noteq> None"
      using room Cons.prems(3) by simp
  qed
  ultimately obtain norms1 where
    l: "loops_loop mu origL s 0 (loops me) norms = Inr norms1"
    using loops_loop_total by blast
  have len: "length offs1 = length offs" "length norms1 = length norms"
    using vertices_loop_length [OF v] loops_loop_length [OF l] by simp_all
  have "\<forall>me \<in> set ms. length (vertices me) = length orig \<and> length (loops me) \<le> length origL \<and>
       (\<forall>l \<in> set (loops me). vertex_index l < length orig \<and>
          inverted mu (frame_matrix mu l) \<noteq> None)"
    using Cons.prems(1) by simp
  moreover have "s + length (vertices me) + length ms * length orig \<le> length offs1"
    using room me(1) len(1) by simp
  moreover have "length norms1 = length offs1" using len Cons.prems(3) by simp
  ultimately obtain offs' norms' where
    "frames_loop mu orig origL ms (s + length (vertices me)) offs1 norms1 = Inr (offs', norms')"
    using Cons.IH by blast
  then show ?case using v l by simp
qed

lemma encodable_D:
  assumes "encodable mu meshes" "me \<in> set meshes"
  shows "length (loops me) \<le> length (loops (hd meshes))"
    and "\<forall>l \<in> set (loops me). vertex_index l < length (vertices me) \<and>
           inverted mu (frame_matrix mu l) \<noteq> None"
  using assms by (auto simp: encodable_def list_all_iff frame_matrix_def Let_def)

lemma well_formed_D:
  assumes "well_formed meshes vc fc"
  shows "length meshes = nat fc" and "\<forall>me \<in> set meshes. length (vertices me) = nat vc"
  using assms by (auto simp: well_formed_def list_all_iff)

lemma get_vertex_data_returns:
  assumes wf: "well_formed meshes vc fc" and fc: "0 < fc" and en: "encodable mu meshes"
  shows "\<exists>offsets normals. get_vertex_data mu meshes vc fc = Inr (offsets, normals)"
proof -
  from well_formed_D(1) [OF wf] fc obtain m0 ms where m: "meshes = m0 # ms"
    by (cases meshes) auto
  have n: "\<forall>me \<in> set meshes. length (vertices me) = length (vertices m0)"
    using well_formed_D(2) [OF wf] m by simp
  have "\<forall>me \<in> set meshes. length (vertices me) = length (vertices m0) \<and>
       length (loops me) \<le> length (loops m0) \<and>
       (\<forall>l \<in> set (loops me). vertex_index l < length (vertices m0) \<and>
          inverted mu (frame_matrix mu l) \<noteq> None)"
  proof
    fix me assume me: "me \<in> set meshes"
    show "length (vertices me) = length (vertices m0) \<and>
       length (loops me) \<le> length (loops m0) \<and>
       (\<forall>l \<in> set (loops me). vertex_index l < length (vertices m0) \<and>
          inverted mu (frame_matrix mu l) \<noteq> None)"
    proof (intro conjI ballI)
      show e: "length (vertices me) = length (vertices m0)" using n me by blast
      show "length (loops me) \<le> length (loops m0)"
        using encodable_D(1) [OF en me] m by simp
      fix l assume "l \<in> set (loops me)"
      with encodable_D(2) [OF en me]
      have "vertex_index l < length (vertices me)" "inverted mu (frame_matrix mu l) \<noteq> None"
        by blast+
      then show "vertex_index l < length (vertices m0)" "inverted mu (frame_matrix mu l) \<noteq> None"
        using e by simp_all
    qed
  qed
  from frames_loop_total [OF this, of 1
      "(replicate (length (vertices m0) * length meshes + 1) zero_pixel)[0 := header vc fc]"
      "(replicate (length (vertices m0) * length meshes + 1) zero_pixel)[0 := header vc fc]"]
  obtain offsets normals where
    "frames_loop mu (vertices m0) (loops m0) meshes 1
       ((replicate (length (vertices m0) * length meshes + 1) zero_pixel)[0 := header vc fc])
       ((replicate (length (vertices m0) * length meshes + 1) zero_pixel)[0 := header vc fc])
     = Inr (offsets, normals)"
    by (auto simp: mult.commute)
  then have "get_vertex_data mu meshes vc fc = Inr (offsets, normals)"
    unfolding get_vertex_data_def Let_def m list.case by (simp only: m [symmetric])
  then show ?thesis by blast
qed

lemma corners_match_encodable:
  assumes wf: "well_formed meshes vc fc" and cm: "list_all corners_match meshes"
    and inv: "\<forall>me \<in> set meshes. \<forall>l \<in> set (loops me). inverted mu (frame_matrix mu l) \<noteq> None"
  shows "encodable mu meshes"
proof -
  have "length (loops me) \<le> length (loops (hd meshes)) \<and>
      (\<forall>l \<in> set (loops me). vertex_index l < length (vertices me) \<and>
         inverted mu (frame_matrix mu l) \<noteq> None)" if me: "me \<in> set meshes" for me
  proof -
    have hd: "hd meshes \<in> set meshes" using me by (cases meshes) auto
    have c: "corners_match me" "corners_match (hd meshes)"
      using cm me hd by (simp_all add: list_all_iff)
    have l: "length (loops me) = nat vc" "length (loops (hd meshes)) = nat vc"
      using c well_formed_D(2) [OF wf] me hd by (simp_all add: corners_match_def)
    have "vertex_index l < length (vertices me)" if "l \<in> set (loops me)" for l
    proof -
      from that obtain k where k: "k < length (loops me)" "loops me ! k = l"
        by (auto simp: in_set_conv_nth)
      have "vertex_index (loops me ! k) = k"
        using c(1) k(1) by (simp add: corners_match_def list_all_iff)
      then show ?thesis using k c(1) by (simp add: corners_match_def)
    qed
    then show ?thesis using l inv me by simp
  qed
  then show ?thesis by (simp add: encodable_def list_all_iff frame_matrix_def Let_def)
qed

section \<open>The claims about the linear buffers\<close>

lemma offset_slot:
  assumes g: "get_vertex_data mu meshes vc fc = Inr (offsets, normals)"
    and wf: "well_formed meshes vc fc" and f: "f < nat fc" and v: "v < nat vc"
  shows "offsets ! (1 + f * nat vc + v)
    = offset_pixel (sub mu (vertices (meshes ! f) ! v) (vertices (meshes ! 0) ! v))"
proof -
  from g obtain m0 ms where m: "meshes = m0 # ms" and
    fl: "frames_loop mu (vertices m0) (loops m0) meshes 1
       ((replicate (length (vertices m0) * length meshes + 1) zero_pixel)[0 := header vc fc])
       ((replicate (length (vertices m0) * length meshes + 1) zero_pixel)[0 := header vc fc])
     = Inr (offsets, normals)"
    by (rule get_vertex_data_Inr)
  have f': "f < length meshes" using f well_formed_D(1) [OF wf] by simp
  from frames_loop_offsets_slot [OF fl well_formed_D(2) [OF wf] f' v]
  show ?thesis using m by simp
qed

lemma rotation_slot:
  assumes g: "get_vertex_data mu meshes vc fc = Inr (offsets, normals)"
    and wf: "well_formed meshes vc fc" and cm: "list_all corners_match meshes"
    and f: "f < nat fc" and c: "c < nat vc"
  shows "\<exists>q. loop_quat mu (loops (meshes ! 0) ! c) (loops (meshes ! f) ! c) = Inr q \<and>
           normals ! (1 + f * nat vc + c) = quat_pixel q"
proof -
  from g obtain m0 ms where m: "meshes = m0 # ms" and
    fl: "frames_loop mu (vertices m0) (loops m0) meshes 1
       ((replicate (length (vertices m0) * length meshes + 1) zero_pixel)[0 := header vc fc])
       ((replicate (length (vertices m0) * length meshes + 1) zero_pixel)[0 := header vc fc])
     = Inr (offsets, normals)"
    by (rule get_vertex_data_Inr)
  have f': "f < length meshes" using f well_formed_D(1) [OF wf] by simp
  have "\<forall>me \<in> set meshes. length (vertices me) = nat vc \<and> corners_match me"
    using well_formed_D(2) [OF wf] cm by (simp add: list_all_iff)
  from frames_loop_normals_slot [OF fl this f' c]
  show ?thesis using m by auto
qed

text \<open>The frame matrix, written out: the rows are \<open>N\<close>, \<open>T\<close> and \<open>B\<close>.\<close>

lemma frame_matrix_rows:
  "frame_matrix mu l =
     (normalized mu (normal l), normalized mu (tangent l),
      normalized mu (cross mu (normalized mu (normal l)) (normalized mu (tangent l))))"
  by (simp add: frame_matrix_def Let_def)

lemma rotation_slot_rows:
  assumes g: "get_vertex_data mu meshes vc fc = Inr (offsets, normals)"
    and wf: "well_formed meshes vc fc" and cm: "list_all corners_match meshes"
    and f: "f < nat fc" and c: "c < nat vc"
  shows "\<exists>Mi.
     (let l0 = loops (meshes ! 0) ! c;
          l = loops (meshes ! f) ! c;
          N0 = normalized mu (normal l0);
          T0 = normalized mu (tangent l0);
          B0 = normalized mu (cross mu N0 T0);
          N = normalized mu (normal l);
          T = normalized mu (tangent l);
          B = normalized mu (cross mu N T);
          M0 = (N0, T0, B0);
          M = (N, T, B)
      in inverted mu M = Some Mi \<and>
         (let q = to_quaternion mu (matmul mu Mi M0)
          in normals ! (1 + f * nat vc + c) = (quat_x q, quat_y q, quat_z q, quat_w q)))"
proof -
  from rotation_slot [OF assms] obtain q where
    q: "loop_quat mu (loops (meshes ! 0) ! c) (loops (meshes ! f) ! c) = Inr q"
       "normals ! (1 + f * nat vc + c) = quat_pixel q" by blast
  show ?thesis
  proof (cases "inverted mu (frame_matrix mu (loops (meshes ! f) ! c))")
    case None
    with q(1) show ?thesis by (simp add: loop_quat_def)
  next
    case (Some Mi)
    with q(1) have "q = to_quaternion mu (matmul mu Mi (frame_matrix mu (loops (meshes ! 0) ! c)))"
      by (simp add: loop_quat_def)
    with q(2) Some show ?thesis
      unfolding frame_matrix_rows Let_def by (intro exI [of _ Mi]) (simp add: quat_pixel_def)
  qed
qed

lemma encodable_example: "encodable exact_mathutils example_meshes"
proof (rule corners_match_encodable [OF well_formed_example corners_match_example], intro ballI)
  fix me l assume "me \<in> set example_meshes" "l \<in> set (loops me)"
  then obtain i where "l = \<lparr>vertex_index = i, normal = (0, 0, 1), tangent = (1, 0, 0)\<rparr>"
    by (auto simp: example_meshes_def example_loops_def)
  then show "inverted exact_mathutils (frame_matrix exact_mathutils l) \<noteq> None"
    by (simp add: frame_matrix_example exact_ops mat_inverted_def mat_det_def)
qed

text \<open>
  Claim C1. On meshes that all have \<open>vertex_count\<close> vertices and number \<open>frame_count > 0\<close>,
  with loops the encoder can process, the encoder returns; and whenever it returns on such
  meshes, slot \<open>1 + f * vertex_count + v\<close> of the offset buffer holds the difference of the
  position of vertex \<open>v\<close> in frame \<open>f\<close> and its position in frame 0, as the library's vector
  subtraction computes it, with fourth component 1. In the example of the specification,
  where that subtraction is exact on the three pairs of positions, slots 4 to 6 each hold
  (0, 0, 1, 1) whatever the loops of the two meshes are, and with no loops the encoder
  returns.
\<close>

theorem C1_offset_slots:
  "(\<forall>mu meshes vertex_count frame_count.
      well_formed meshes vertex_count frame_count \<and> 0 < frame_count \<and> encodable mu meshes \<longrightarrow>
      (\<exists>offsets normals. get_vertex_data mu meshes vertex_count frame_count = Inr (offsets, normals))) \<and>
   (\<forall>mu meshes vertex_count frame_count offsets normals f v.
      get_vertex_data mu meshes vertex_count frame_count = Inr (offsets, normals) \<and>
      well_formed meshes vertex_count frame_count \<and> f < nat frame_count \<and> v < nat vertex_count \<longrightarrow>
      (case sub mu (vertices (meshes ! f) ! v) (vertices (meshes ! 0) ! v) of (x, y, z) \<Rightarrow>
         offsets ! (1 + f * nat vertex_count + v) = (x, y, z, 1))) \<and>
   (\<forall>mu ls0 ls1 offsets normals.
      get_vertex_data mu
        [\<lparr>vertices = [(0, 0, 0), (1, 0, 0), (0, 1, 0)], loops = ls0\<rparr>,
         \<lparr>vertices = [(0, 0, 1), (1, 0, 1), (0, 1, 1)], loops = ls1\<rparr>] 3 2 = Inr (offsets, normals) \<and>
      sub mu (0, 0, 1) (0, 0, 0) = (0, 0, 1) \<and> sub mu (1, 0, 1) (1, 0, 0) = (0, 0, 1) \<and>
      sub mu (0, 1, 1) (0, 1, 0) = (0, 0, 1) \<longrightarrow>
      offsets ! 4 = (0, 0, 1, 1) \<and> offsets ! 5 = (0, 0, 1, 1) \<and> offsets ! 6 = (0, 0, 1, 1)) \<and>
   (\<forall>mu. \<exists>offsets normals.
      get_vertex_data mu
        [\<lparr>vertices = [(0, 0, 0), (1, 0, 0), (0, 1, 0)], loops = []\<rparr>,
         \<lparr>vertices = [(0, 0, 1), (1, 0, 1), (0, 1, 1)], loops = []\<rparr>] 3 2 = Inr (offsets, normals))"
proof (intro conjI allI impI)
  fix mu meshes vertex_count frame_count
  assume "well_formed meshes vertex_count frame_count \<and> 0 < frame_count \<and> encodable mu meshes"
  then show "\<exists>offsets normals. get_vertex_data mu meshes vertex_count frame_count = Inr (offsets, normals)"
    using get_vertex_data_returns by blast
next
  fix mu meshes vertex_count frame_count offsets normals f v
  assume "get_vertex_data mu meshes vertex_count frame_count = Inr (offsets, normals) \<and>
      well_formed meshes vertex_count frame_count \<and> f < nat frame_count \<and> v < nat vertex_count"
  then have "offsets ! (1 + f * nat vertex_count + v)
    = offset_pixel (sub mu (vertices (meshes ! f) ! v) (vertices (meshes ! 0) ! v))"
    using offset_slot by blast
  then show "case sub mu (vertices (meshes ! f) ! v) (vertices (meshes ! 0) ! v) of (x, y, z) \<Rightarrow>
         offsets ! (1 + f * nat vertex_count + v) = (x, y, z, 1)"
    by (simp add: offset_pixel_def split: prod.splits)
next
  fix mu ls0 ls1 offsets normals
  let ?ms = "[\<lparr>vertices = [(0, 0, 0), (1, 0, 0), (0, 1, 0)], loops = ls0\<rparr>,
         \<lparr>vertices = [(0, 0, 1), (1, 0, 1), (0, 1, 1)], loops = ls1\<rparr>]"
  assume a: "get_vertex_data mu ?ms 3 2 = Inr (offsets, normals) \<and>
      sub mu (0, 0, 1) (0, 0, 0) = (0, 0, 1) \<and> sub mu (1, 0, 1) (1, 0, 0) = (0, 0, 1) \<and>
      sub mu (0, 1, 1) (0, 1, 0) = (0, 0, 1)"
  then have g: "get_vertex_data mu ?ms 3 2 = Inr (offsets, normals)" by blast
  have wf: "well_formed ?ms 3 2" by (simp add: well_formed_def)
  have "offsets ! (1 + 1 * nat 3 + 0) = (0, 0, 1, 1)"
    using offset_slot [OF g wf, of 1 0] a by (simp add: offset_pixel_def)
  then show "offsets ! 4 = (0, 0, 1, 1)" by simp
  have "offsets ! (1 + 1 * nat 3 + 1) = (0, 0, 1, 1)"
    using offset_slot [OF g wf, of 1 1] a by (simp add: offset_pixel_def)
  then show "offsets ! 5 = (0, 0, 1, 1)" by simp
  have "offsets ! (1 + 1 * nat 3 + 2) = (0, 0, 1, 1)"
    using offset_slot [OF g wf, of 1 2] a by (simp add: offset_pixel_def)
  then show "offsets ! 6 = (0, 0, 1, 1)" by simp
next
  fix mu
  let ?ms = "[\<lparr>vertices = [(0, 0, 0), (1, 0, 0), (0, 1, 0)], loops = []\<rparr>,
         \<lparr>vertices = [(0, 0, 1), (1, 0, 1), (0, 1, 1)], loops = []\<rparr>]"
  have "well_formed ?ms 3 2" by (simp add: well_formed_def)
  moreover have "encodable mu ?ms" by (simp add: encodable_def)
  ultimately show "\<exists>offsets normals. get_vertex_data mu ?ms 3 2 = Inr (offsets, normals)"
    using get_vertex_data_returns [of ?ms 3 2 mu] by simp
qed

theorem C1_offset_slots_witness:
  "well_formed example_meshes 3 2 \<and> (0::int) < 2 \<and> encodable exact_mathutils example_meshes \<and>
   get_vertex_data exact_mathutils example_meshes 3 2 = Inr (example_offsets, example_normals) \<and>
   (1::nat) < nat 2 \<and> (2::nat) < nat 3 \<and>
   sub exact_mathutils (vertices (example_meshes ! 1) ! 2) (vertices (example_meshes ! 0) ! 2) = (0, 0, 1) \<and>
   example_offsets ! (1 + 1 * nat 3 + 2) = (0, 0, 1, 1) \<and>
   sub exact_mathutils (0, 0, 1) (0, 0, 0) = (0, 0, 1) \<and>
   sub exact_mathutils (1, 0, 1) (1, 0, 0) = (0, 0, 1) \<and>
   sub exact_mathutils (0, 1, 1) (0, 1, 0) = (0, 0, 1) \<and>
   example_offsets ! 4 = (0, 0, 1, 1) \<and> example_offsets ! 5 = (0, 0, 1, 1) \<and>
   example_offsets ! 6 = (0, 0, 1, 1)"
proof -
  have h1: "well_formed example_meshes 3 2 \<and> (0::int) < 2 \<and> encodable exact_mathutils example_meshes"
    using well_formed_example encodable_example by simp
  have r: "\<exists>offsets normals. get_vertex_data exact_mathutils example_meshes 3 2 = Inr (offsets, normals)"
    using C1_offset_slots [THEN conjunct1, rule_format, OF h1] .
  have h2: "get_vertex_data exact_mathutils example_meshes 3 2 = Inr (example_offsets, example_normals) \<and>
      well_formed example_meshes 3 2 \<and> (1::nat) < nat 2 \<and> (2::nat) < nat 3"
    using get_vertex_data_example well_formed_example by simp
  have s: "sub exact_mathutils (vertices (example_meshes ! 1) ! 2) (vertices (example_meshes ! 0) ! 2)
      = (0, 0, 1)"
    by (simp add: example_meshes_def exact_ops vec_sub_def)
  have "case sub exact_mathutils (vertices (example_meshes ! 1) ! 2) (vertices (example_meshes ! 0) ! 2)
      of (x, y, z) \<Rightarrow> example_offsets ! (1 + 1 * nat 3 + 2) = (x, y, z, 1)"
    using C1_offset_slots [THEN conjunct2, THEN conjunct1, rule_format, OF h2] .
  then have p: "example_offsets ! (1 + 1 * nat 3 + 2) = (0, 0, 1, 1)" unfolding s by simp
  have e: "sub exact_mathutils (0, 0, 1) (0, 0, 0) = (0, 0, 1)"
    "sub exact_mathutils (1, 0, 1) (1, 0, 0) = (0, 0, 1)"
    "sub exact_mathutils (0, 1, 1) (0, 1, 0) = (0, 0, 1)"
    by (simp_all add: exact_ops vec_sub_def)
  have h3: "get_vertex_data exact_mathutils
        [\<lparr>vertices = [(0, 0, 0), (1, 0, 0), (0, 1, 0)], loops = example_loops\<rparr>,
         \<lparr>vertices = [(0, 0, 1), (1, 0, 1), (0, 1, 1)], loops = example_loops\<rparr>] 3 2
        = Inr (example_offsets, example_normals) \<and>
      sub exact_mathutils (0, 0, 1) (0, 0, 0) = (0, 0, 1) \<and>
      sub exact_mathutils (1, 0, 1) (1, 0, 0) = (0, 0, 1) \<and>
      sub exact_mathutils (0, 1, 1) (0, 1, 0) = (0, 0, 1)"
    using get_vertex_data_example e by (simp add: example_meshes_def)
  have x: "example_offsets ! 4 = (0, 0, 1, 1) \<and> example_offsets ! 5 = (0, 0, 1, 1) \<and>
      example_offsets ! 6 = (0, 0, 1, 1)"
    using C1_offset_slots [THEN conjunct2, THEN conjunct2, THEN conjunct1, rule_format, OF h3] .
  from h1 h2 s p e x show ?thesis by blast
qed

text \<open>
  Claim C2. On meshes that all have \<open>vertex_count\<close> vertices, number \<open>frame_count\<close>, have one
  corner per vertex with corner \<open>c\<close> belonging to vertex \<open>c\<close>, and whose frame matrices all
  have an inverse, the encoder returns, and slot \<open>1 + f * vertex_count + c\<close> of the rotation
  buffer holds \<open>(q.x, q.y, q.z, q.w)\<close> for the quaternion \<open>q\<close> that the library's conversion
  returns for \<open>M\<^sup>-\<^sup>1 * M0\<close>, where \<open>M0\<close> has the rows \<open>N0\<close>, \<open>T0\<close>, \<open>B0\<close> of corner \<open>c\<close> in frame 0
  and \<open>M\<close> the rows \<open>N\<close>, \<open>T\<close>, \<open>B\<close> of corner \<open>c\<close> in frame \<open>f\<close> (normalised normal, normalised
  tangent, and their normalised cross product). It is a unit quaternion whenever the
  library's conversion returns unit quaternions.
\<close>

theorem C2_rotation_slots:
  assumes "well_formed meshes vertex_count frame_count"
    and "list_all corners_match meshes"
    and "encodable mu meshes"
    and "f < nat frame_count" and "c < nat vertex_count"
  shows "\<exists>offsets normals Mi.
     get_vertex_data mu meshes vertex_count frame_count = Inr (offsets, normals) \<and>
     (let l0 = loops (meshes ! 0) ! c;
          l = loops (meshes ! f) ! c;
          N0 = normalized mu (normal l0);
          T0 = normalized mu (tangent l0);
          B0 = normalized mu (cross mu N0 T0);
          N = normalized mu (normal l);
          T = normalized mu (tangent l);
          B = normalized mu (cross mu N T);
          M0 = (N0, T0, B0);
          M = (N, T, B)
      in inverted mu M = Some Mi \<and>
         (let q = to_quaternion mu (matmul mu Mi M0)
          in normals ! (1 + f * nat vertex_count + c) = (quat_x q, quat_y q, quat_z q, quat_w q) \<and>
             ((\<forall>m. quat_unit (to_quaternion mu m)) \<longrightarrow> quat_unit q)))"
proof -
  have "0 < frame_count" using assms(4) by simp
  from get_vertex_data_returns [OF assms(1) this assms(3)] obtain offsets normals where
    g: "get_vertex_data mu meshes vertex_count frame_count = Inr (offsets, normals)" by blast
  from rotation_slot_rows [OF g assms(1,2,4,5)] obtain Mi where
    "let l0 = loops (meshes ! 0) ! c;
          l = loops (meshes ! f) ! c;
          N0 = normalized mu (normal l0);
          T0 = normalized mu (tangent l0);
          B0 = normalized mu (cross mu N0 T0);
          N = normalized mu (normal l);
          T = normalized mu (tangent l);
          B = normalized mu (cross mu N T);
          M0 = (N0, T0, B0);
          M = (N, T, B)
      in inverted mu M = Some Mi \<and>
         (let q = to_quaternion mu (matmul mu Mi M0)
          in normals ! (1 + f * nat vertex_count + c) = (quat_x q, quat_y q, quat_z q, quat_w q))"
    by blast
  with g show ?thesis
    unfolding Let_def
    by (intro exI [of _ offsets] exI [of _ normals] exI [of _ Mi]) (simp del: split_paired_All)
qed

theorem C2_rotation_slots_witness:
  "well_formed example_meshes 3 2 \<and> list_all corners_match example_meshes \<and>
   encodable exact_mathutils example_meshes \<and> (1::nat) < nat 2 \<and> (2::nat) < nat 3 \<and>
   (\<forall>m. quat_unit (to_quaternion exact_mathutils m)) \<and>
   (\<exists>offsets normals Mi.
     get_vertex_data exact_mathutils example_meshes 3 2 = Inr (offsets, normals) \<and>
     (let l0 = loops (example_meshes ! 0) ! 2;
          l = loops (example_meshes ! 1) ! 2;
          N0 = normalized exact_mathutils (normal l0);
          T0 = normalized exact_mathutils (tangent l0);
          B0 = normalized exact_mathutils (cross exact_mathutils N0 T0);
          N = normalized exact_mathutils (normal l);
          T = normalized exact_mathutils (tangent l);
          B = normalized exact_mathutils (cross exact_mathutils N T);
          M0 = (N0, T0, B0);
          M = (N, T, B)
      in inverted exact_mathutils M = Some Mi \<and>
         (let q = to_quaternion exact_mathutils (matmul exact_mathutils Mi M0)
          in normals ! (1 + 1 * nat 3 + 2) = (quat_x q, quat_y q, quat_z q, quat_w q) \<and>
             quat_unit q)))"
proof -
  have 1: "(1::nat) < nat 2" and 2: "(2::nat) < nat 3" by simp_all
  from C2_rotation_slots [OF well_formed_example corners_match_example encodable_example 1 2]
  show ?thesis
    using well_formed_example corners_match_example encodable_example exact_to_quaternion_unit
    unfolding Let_def by (simp del: split_paired_All)
qed

section \<open>The header\<close>

lemma header_channels:
  "header vc fc = (of_int (vc div 2048 - 2048), of_int (vc mod 2048 - 2048),
                   of_int (fc mod 2048 - 2048), 1)"
  by (simp add: header_def)

lemma header_frame_period: "header vc (fc + 2048 * k) = header vc fc"
  by (simp add: header_def)

text \<open>
  Claim C5. On meshes as in claim C1 the encoder returns; and whenever it returns, pixel 0
  of the offset buffer and pixel 0 of the rotation buffer are the same pixel
  \<open>(vertex_count div 2048 - 2048, vertex_count mod 2048 - 2048, frame_count mod 2048 - 2048, 1)\<close>.
  The most significant half of the frame count is not stored: the encoder called with a
  frame count that differs by a multiple of 2048 writes the same pixel.
\<close>

theorem C5_header_pixel:
  "(\<forall>mu meshes vertex_count frame_count.
      well_formed meshes vertex_count frame_count \<and> 0 < frame_count \<and> encodable mu meshes \<longrightarrow>
      (\<exists>offsets normals. get_vertex_data mu meshes vertex_count frame_count = Inr (offsets, normals))) \<and>
   (\<forall>mu meshes vertex_count frame_count offsets normals.
      get_vertex_data mu meshes vertex_count frame_count = Inr (offsets, normals) \<longrightarrow>
      offsets ! 0 = normals ! 0 \<and>
      offsets ! 0 = (of_int (vertex_count div 2048 - 2048), of_int (vertex_count mod 2048 - 2048),
                     of_int (frame_count mod 2048 - 2048), 1) \<and>
      (\<forall>k offsets' normals'.
         get_vertex_data mu meshes vertex_count (frame_count + 2048 * k) = Inr (offsets', normals')
         \<longrightarrow> offsets' ! 0 = offsets ! 0 \<and> normals' ! 0 = normals ! 0))"
proof (intro conjI allI impI)
  fix mu meshes vertex_count frame_count
  assume "well_formed meshes vertex_count frame_count \<and> 0 < frame_count \<and> encodable mu meshes"
  then show "\<exists>offsets normals. get_vertex_data mu meshes vertex_count frame_count = Inr (offsets, normals)"
    using get_vertex_data_returns by blast
next
  fix mu meshes vertex_count frame_count offsets normals
  assume g: "get_vertex_data mu meshes vertex_count frame_count = Inr (offsets, normals)"
  show "offsets ! 0 = normals ! 0"
    using get_vertex_data_header [OF g] by simp
  show "offsets ! 0 = (of_int (vertex_count div 2048 - 2048), of_int (vertex_count mod 2048 - 2048),
                    of_int (frame_count mod 2048 - 2048), 1)"
    using get_vertex_data_header(1) [OF g] by (simp add: header_channels)
  fix k offsets' normals'
  assume g': "get_vertex_data mu meshes vertex_count (frame_count + 2048 * k) = Inr (offsets', normals')"
  show "offsets' ! 0 = offsets ! 0"
    using get_vertex_data_header(1) [OF g'] get_vertex_data_header(1) [OF g]
    by (simp add: header_frame_period)
  show "normals' ! 0 = normals ! 0"
    using get_vertex_data_header(2) [OF g'] get_vertex_data_header(2) [OF g]
    by (simp add: header_frame_period)
qed

theorem C5_header_pixel_witness:
  "well_formed example_meshes 3 2 \<and> (0::int) < 2 \<and> encodable exact_mathutils example_meshes \<and>
   get_vertex_data exact_mathutils example_meshes 3 2 = Inr (example_offsets, example_normals) \<and>
   example_offsets ! 0 = example_normals ! 0 \<and>
   example_offsets ! 0 = (- 2048, - 2045, - 2046, 1)"
proof -
  have h1: "well_formed example_meshes 3 2 \<and> (0::int) < 2 \<and> encodable exact_mathutils example_meshes"
    using well_formed_example encodable_example by simp
  have r: "\<exists>offsets normals. get_vertex_data exact_mathutils example_meshes 3 2 = Inr (offsets, normals)"
    using C5_header_pixel [THEN conjunct1, rule_format, OF h1] .
  from C5_header_pixel [THEN conjunct2, rule_format, OF get_vertex_data_example]
  have "example_offsets ! 0 = example_normals ! 0"
    and "example_offsets ! 0 = (of_int (3 div 2048 - 2048), of_int (3 mod 2048 - 2048),
                    of_int (2 mod 2048 - 2048), 1)" by blast+
  then show ?thesis using h1 get_vertex_data_example by simp
qed

text \<open>
  Claim C4 is right and the code does not meet it. The encoder computes
  \<^verbatim>\<open>frame_count_MSH\<close> (line 206) and stores only \<^verbatim>\<open>frame_count_LSH\<close>, while \<^verbatim>\<open>execute\<close> admits
  up to 4096 frames (line 459). One vertex with 2049 frames passes the capacity checks, as
  does one vertex with one frame; both give the same header pixel, from which the vertex
  count decodes to 1 and the frame count to 1.
\<close>

theorem C4_frame_count_lost:
  "capacity_check 1 2049 = None \<and> capacity_check 1 1 = None \<and>
   header 1 2049 = header 1 1 \<and>
   decoded_vertex_count (header 1 2049) = 1 \<and> decoded_frame_count (header 1 2049) = 1"
  by (simp add: capacity_check_def header_def decoded_vertex_count_def decoded_frame_count_def
      decode_header_def)

section \<open>Equal normals\<close>

text \<open>
  Claim C3, amended. On meshes as in claim C2 (all with \<open>vertex_count\<close> vertices,
  \<open>frame_count\<close> of them, one corner per vertex, frame matrices with an inverse): if both
  the normal and the tangent of corner \<open>c\<close> in frame \<open>f\<close> equal its normal and tangent in
  frame 0, the pixel stored for it is the conversion of \<open>M0\<^sup>-\<^sup>1 * M0\<close>, the same pixel that
  is stored for that corner in frame 0; it is (0, 0, 0, 1) whenever the library computes
  \<open>M0\<^sup>-\<^sup>1 * M0\<close> as the identity matrix and converts the identity matrix to the quaternion
  \<open>w = 1, x = y = z = 0\<close>. Nothing is special-cased, and equal normals alone do not give
  the identity.
\<close>

theorem C3_same_frame:
  assumes "well_formed meshes vertex_count frame_count"
    and "list_all corners_match meshes"
    and "encodable mu meshes"
    and "f < nat frame_count" and "c < nat vertex_count"
    and "normal (loops (meshes ! f) ! c) = normal (loops (meshes ! 0) ! c)"
    and "tangent (loops (meshes ! f) ! c) = tangent (loops (meshes ! 0) ! c)"
  shows "\<exists>offsets normals Mi.
     get_vertex_data mu meshes vertex_count frame_count = Inr (offsets, normals) \<and>
     (let l0 = loops (meshes ! 0) ! c;
          N0 = normalized mu (normal l0);
          T0 = normalized mu (tangent l0);
          B0 = normalized mu (cross mu N0 T0);
          M0 = (N0, T0, B0)
      in inverted mu M0 = Some Mi \<and>
         (let rot = matmul mu Mi M0;
              q = to_quaternion mu rot
          in normals ! (1 + f * nat vertex_count + c) = (quat_x q, quat_y q, quat_z q, quat_w q) \<and>
             normals ! (1 + f * nat vertex_count + c) = normals ! (1 + 0 * nat vertex_count + c) \<and>
             (rot = ((1, 0, 0), (0, 1, 0), (0, 0, 1)) \<and>
              to_quaternion mu ((1, 0, 0), (0, 1, 0), (0, 0, 1)) = Quaternion 1 0 0 0 \<longrightarrow>
              normals ! (1 + f * nat vertex_count + c) = (0, 0, 0, 1))))"
proof -
  define M0 where "M0 = frame_matrix mu (loops (meshes ! 0) ! c)"
  have M: "frame_matrix mu (loops (meshes ! f) ! c) = M0"
    using assms(6,7) by (simp add: frame_matrix_def M0_def)
  have fc: "0 < frame_count" and f0: "0 < nat frame_count" using assms(4) by simp_all
  from get_vertex_data_returns [OF assms(1) fc assms(3)] obtain offsets normals where
    g: "get_vertex_data mu meshes vertex_count frame_count = Inr (offsets, normals)" by blast
  from rotation_slot [OF g assms(1,2,4,5)] obtain q where
    q: "loop_quat mu (loops (meshes ! 0) ! c) (loops (meshes ! f) ! c) = Inr q"
       "normals ! (1 + f * nat vertex_count + c) = quat_pixel q" by blast
  from rotation_slot [OF g assms(1,2) f0 assms(5)] obtain q0 where
    q0: "loop_quat mu (loops (meshes ! 0) ! c) (loops (meshes ! 0) ! c) = Inr q0"
        "normals ! (1 + 0 * nat vertex_count + c) = quat_pixel q0" by blast
  obtain Mi where Mi: "inverted mu M0 = Some Mi"
    using q0(1) by (cases "inverted mu M0") (simp_all add: loop_quat_def M0_def)
  have qq: "q = to_quaternion mu (matmul mu Mi M0)" "q0 = to_quaternion mu (matmul mu Mi M0)"
    using q(1) q0(1) Mi by (simp_all add: loop_quat_def M M0_def [symmetric])
  have rows: "M0 = (normalized mu (normal (loops (meshes ! 0) ! c)),
      normalized mu (tangent (loops (meshes ! 0) ! c)),
      normalized mu (cross mu (normalized mu (normal (loops (meshes ! 0) ! c)))
        (normalized mu (tangent (loops (meshes ! 0) ! c)))))"
    unfolding M0_def by (rule frame_matrix_rows)
  have 1: "normals ! (1 + f * nat vertex_count + c)
      = (quat_x (to_quaternion mu (matmul mu Mi M0)), quat_y (to_quaternion mu (matmul mu Mi M0)),
         quat_z (to_quaternion mu (matmul mu Mi M0)), quat_w (to_quaternion mu (matmul mu Mi M0)))"
    using q(2) qq(1) by (simp add: quat_pixel_def)
  have 2: "normals ! (1 + f * nat vertex_count + c) = normals ! (1 + 0 * nat vertex_count + c)"
    using q(2) q0(2) qq by simp
  have 3: "normals ! (1 + f * nat vertex_count + c) = (0, 0, 0, 1)"
    if "matmul mu Mi M0 = ((1, 0, 0), (0, 1, 0), (0, 0, 1))"
      "to_quaternion mu ((1, 0, 0), (0, 1, 0), (0, 0, 1)) = Quaternion 1 0 0 0"
    using 1 that by simp
  show ?thesis
    unfolding Let_def rows [symmetric]
    using g Mi 1 2 3 by (intro exI [of _ offsets] exI [of _ normals] exI [of _ Mi]) blast
qed

theorem C3_same_frame_witness:
  "well_formed example_meshes 3 2 \<and> list_all corners_match example_meshes \<and>
   encodable exact_mathutils example_meshes \<and> (1::nat) < nat 2 \<and> (2::nat) < nat 3 \<and>
   normal (loops (example_meshes ! 1) ! 2) = normal (loops (example_meshes ! 0) ! 2) \<and>
   tangent (loops (example_meshes ! 1) ! 2) = tangent (loops (example_meshes ! 0) ! 2) \<and>
   mat_inverted ((0, 0, 1), (1, 0, 0), (0, 1, 0)) = Some ((0, 1, 0), (0, 0, 1), (1, 0, 0)) \<and>
   matmul exact_mathutils ((0, 1, 0), (0, 0, 1), (1, 0, 0)) ((0, 0, 1), (1, 0, 0), (0, 1, 0))
     = ((1, 0, 0), (0, 1, 0), (0, 0, 1)) \<and>
   to_quaternion exact_mathutils ((1, 0, 0), (0, 1, 0), (0, 0, 1)) = Quaternion 1 0 0 0 \<and>
   get_vertex_data exact_mathutils example_meshes 3 2 = Inr (example_offsets, example_normals) \<and>
   example_normals ! (1 + 1 * nat 3 + 2) = example_normals ! (1 + 0 * nat 3 + 2) \<and>
   example_normals ! (1 + 1 * nat 3 + 2) = (0, 0, 0, 1)"
proof -
  have 1: "(1::nat) < nat 2" and 2: "(2::nat) < nat 3" by simp_all
  have n: "normal (loops (example_meshes ! 1) ! 2) = normal (loops (example_meshes ! 0) ! 2)"
    and t: "tangent (loops (example_meshes ! 1) ! 2) = tangent (loops (example_meshes ! 0) ! 2)"
    by (simp_all add: example_meshes_def)
  have l0: "loops (example_meshes ! 0) ! 2
      = \<lparr>vertex_index = 2, normal = (0, 0, 1), tangent = (1, 0, 0)\<rparr>"
    by (simp add: example_meshes_def example_loops_def)
  have rows: "(normalized exact_mathutils (normal (loops (example_meshes ! 0) ! 2)),
      normalized exact_mathutils (tangent (loops (example_meshes ! 0) ! 2)),
      normalized exact_mathutils (cross exact_mathutils
        (normalized exact_mathutils (normal (loops (example_meshes ! 0) ! 2)))
        (normalized exact_mathutils (tangent (loops (example_meshes ! 0) ! 2)))))
      = ((0, 0, 1), (1, 0, 0), (0, 1, 0))"
    unfolding frame_matrix_rows [symmetric] l0 by (rule frame_matrix_example)
  have inv: "mat_inverted ((0, 0, 1), (1, 0, 0), (0, 1, 0)) = Some ((0, 1, 0), (0, 0, 1), (1, 0, 0))"
    by (simp add: mat_inverted_def mat_det_def)
  have mm: "matmul exact_mathutils ((0, 1, 0), (0, 0, 1), (1, 0, 0)) ((0, 0, 1), (1, 0, 0), (0, 1, 0))
     = ((1, 0, 0), (0, 1, 0), (0, 0, 1))"
    by (simp add: exact_ops mat_mul_def vec_dot_def)
  have tq: "to_quaternion exact_mathutils ((1, 0, 0), (0, 1, 0), (0, 0, 1)) = Quaternion 1 0 0 0"
    by (simp add: exact_ops mat_to_quaternion_identity)
  from C3_same_frame
    [OF well_formed_example corners_match_example encodable_example 1 2 n t]
  obtain offsets normals Mi where
    g: "get_vertex_data exact_mathutils example_meshes 3 2 = Inr (offsets, normals)"
    and i: "inverted exact_mathutils ((0, 0, 1), (1, 0, 0), (0, 1, 0)) = Some Mi"
    and s: "normals ! (1 + 1 * nat 3 + 2) = normals ! (1 + 0 * nat 3 + 2)"
    and z: "matmul exact_mathutils Mi ((0, 0, 1), (1, 0, 0), (0, 1, 0)) = ((1, 0, 0), (0, 1, 0), (0, 0, 1)) \<and>
            to_quaternion exact_mathutils ((1, 0, 0), (0, 1, 0), (0, 0, 1)) = Quaternion 1 0 0 0 \<longrightarrow>
            normals ! (1 + 1 * nat 3 + 2) = (0, 0, 0, 1)"
    unfolding Let_def rows by blast
  have Mi: "Mi = ((0, 1, 0), (0, 0, 1), (1, 0, 0))" using i inv by (simp add: exact_ops)
  have e: "normals = example_normals" using g get_vertex_data_example by simp
  have "example_normals ! (1 + 1 * nat 3 + 2) = (0, 0, 0, 1)"
    using z mm tq unfolding Mi e by blast
  then show ?thesis
    using well_formed_example corners_match_example encodable_example n t inv mm tq
      get_vertex_data_example s [unfolded e] by simp
qed

text \<open>
  The claim as stated fails when the normal is unchanged and the tangent is not: with the
  tangent turned by a quarter turn about the normal, the rotation buffer holds the
  quaternion of that quarter turn in slot 2.
\<close>

theorem C3_counterexample:
  "normal (loops (twist_meshes ! 1) ! 0) = normal (loops (twist_meshes ! 0) ! 0) \<and>
   get_vertex_data exact_mathutils twist_meshes 1 2 =
     Inr ([(- 2048, - 2047, - 2046, 1), (0, 0, 0, 1), (0, 0, 0, 1)],
          [(- 2048, - 2047, - 2046, 1), (0, 0, 0, 1), (0, 0, 1 / sqrt 2, sqrt 2 / 2)]) \<and>
   (0, 0, 1 / sqrt 2, sqrt 2 / 2) \<noteq> (0, 0, 0, 1 :: real)"
  using get_vertex_data_twist by (simp add: twist_meshes_def)

subsection \<open>Writing into the grid\<close>

lemma np_index_nonneg:
  assumes "0 \<le> i"
  shows "np_index n i = (if i < int n then Inr (nat i) else Inl IndexError)"
  using assms by (simp add: np_index_def)

lemma np_setitem2_D:
  assumes "np_setitem2 g w y x p = Inr g'" "0 \<le> y" "0 \<le> x"
  shows "y < int (length g)" "x < int w" "g' = g[nat y := (g ! nat y)[nat x := p]]"
  using assms
  by (auto simp: np_setitem2_def np_index_nonneg split: sum.splits if_splits)

lemma np_setitem2_Inr:
  assumes "0 \<le> y" "y < int (length g)" "0 \<le> x" "x < int w"
  shows "np_setitem2 g w y x p = Inr (g[nat y := (g ! nat y)[nat x := p]])"
  using assms by (simp add: np_setitem2_def np_index_nonneg)

lemma grid_update_shape:
  assumes "\<forall>r \<in> set g. length r = w"
  shows "\<forall>r \<in> set (g[k := (g ! k)[c := p]]). length r = w"
proof
  fix r assume "r \<in> set (g[k := (g ! k)[c := p]])"
  then have "r \<in> insert ((g ! k)[c := p]) (set g)" using set_update_subset_insert by fastforce
  moreover have "length ((g ! k)[c := p]) = w" if "k < length g"
    using assms that by simp
  moreover have "g[k := (g ! k)[c := p]] = g" if "\<not> k < length g"
    using that by (simp add: list_update_beyond)
  ultimately show "length r = w"
    using assms \<open>r \<in> set (g[k := (g ! k)[c := p]])\<close> by (cases "k < length g") auto
qed

lemma grid_update_other:
  assumes "(c, k) \<noteq> (x, y)"
  shows "g[k := (g ! k)[c := p]] ! y ! x = g ! y ! x"
proof (cases "k = y")
  case True
  then have "c \<noteq> x" using assms by simp
  then show ?thesis using True by (cases "y < length g") (simp_all add: list_update_beyond)
next
  case False
  then show ?thesis by simp
qed

lemma grid_update_hit:
  assumes "k < length g" "c < length (g ! k)"
  shows "g[k := (g ! k)[c := p]] ! k ! c = p"
  using assms by simp

lemma concat_nth:
  assumes "\<forall>r \<in> set g. length r = w" "y < length g" "x < w"
  shows "concat g ! (y * w + x) = g ! y ! x"
  using assms
proof (induction g arbitrary: y)
  case Nil
  then show ?case by simp
next
  case (Cons r g)
  show ?case
  proof (cases y)
    case 0
    then show ?thesis using Cons.prems by (simp add: nth_append)
  next
    case (Suc y')
    have "concat (r # g) ! (y * w + x) = concat g ! (y' * w + x)"
      using Cons.prems(1) Suc by (simp add: nth_append)
    also have "\<dots> = g ! y' ! x"
      using Cons.IH [of y'] Cons.prems Suc by simp
    finally show ?thesis using Suc by simp
  qed
qed

lemma concat_length:
  assumes "\<forall>r \<in> set g. length r = w"
  shows "length (concat g) = length g * w"
  using assms by (induction g) simp_all

subsection \<open>The scatter loop\<close>

lemma scatter_loop_Cons_Inr:
  assumes "scatter_loop w (idx # idxs) offs norms oz nz = Inr (oz', nz')"
  obtains oz1 nz1 where
    "idx < length offs" "idx < length norms"
    "np_setitem2 oz w (DecodeMorton2Y (int idx)) (DecodeMorton2X (int idx)) (offs ! idx) = Inr oz1"
    "np_setitem2 nz w (DecodeMorton2Y (int idx)) (DecodeMorton2X (int idx)) (norms ! idx) = Inr nz1"
    "scatter_loop w idxs offs norms oz1 nz1 = Inr (oz', nz')"
  using assms by (auto simp: Let_def slice4_def split: sum.splits if_splits)

lemma scatter_loop_step:
  assumes "scatter_loop w (idx # idxs) offs norms oz nz = Inr (oz', nz')"
  shows "idx < length offs" "idx < length norms"
    "DecodeMorton2Y (int idx) < int (length oz)" "DecodeMorton2Y (int idx) < int (length nz)"
    "DecodeMorton2X (int idx) < int w"
    "scatter_loop w idxs offs norms
       (oz[nat (DecodeMorton2Y (int idx)) :=
          (oz ! nat (DecodeMorton2Y (int idx)))[nat (DecodeMorton2X (int idx)) := offs ! idx]])
       (nz[nat (DecodeMorton2Y (int idx)) :=
          (nz ! nat (DecodeMorton2Y (int idx)))[nat (DecodeMorton2X (int idx)) := norms ! idx]])
     = Inr (oz', nz')"
proof -
  from assms obtain oz1 nz1 where
    a: "idx < length offs" "idx < length norms"
    "np_setitem2 oz w (DecodeMorton2Y (int idx)) (DecodeMorton2X (int idx)) (offs ! idx) = Inr oz1"
    "np_setitem2 nz w (DecodeMorton2Y (int idx)) (DecodeMorton2X (int idx)) (norms ! idx) = Inr nz1"
    "scatter_loop w idxs offs norms oz1 nz1 = Inr (oz', nz')"
    by (rule scatter_loop_Cons_Inr)
  note o = np_setitem2_D [OF a(3) Y_nonneg X_nonneg]
  note n = np_setitem2_D [OF a(4) Y_nonneg X_nonneg]
  show "idx < length offs" "idx < length norms" by (rule a)+
  show "DecodeMorton2Y (int idx) < int (length oz)" by (rule o(1))
  show "DecodeMorton2Y (int idx) < int (length nz)" by (rule n(1))
  show "DecodeMorton2X (int idx) < int w" by (rule o(2))
  show "scatter_loop w idxs offs norms
       (oz[nat (DecodeMorton2Y (int idx)) :=
          (oz ! nat (DecodeMorton2Y (int idx)))[nat (DecodeMorton2X (int idx)) := offs ! idx]])
       (nz[nat (DecodeMorton2Y (int idx)) :=
          (nz ! nat (DecodeMorton2Y (int idx)))[nat (DecodeMorton2X (int idx)) := norms ! idx]])
     = Inr (oz', nz')"
    using a(5) unfolding o(3) n(3) .
qed

lemma scatter_loop_shape:
  "scatter_loop w idxs offs norms oz nz = Inr (oz', nz')
     \<Longrightarrow> \<forall>r \<in> set oz. length r = w \<Longrightarrow> \<forall>r \<in> set nz. length r = w
     \<Longrightarrow> length oz' = length oz \<and> length nz' = length nz \<and>
         (\<forall>r \<in> set oz'. length r = w) \<and> (\<forall>r \<in> set nz'. length r = w)"
proof (induction idxs arbitrary: oz nz)
  case Nil
  then show ?case by simp
next
  case (Cons idx idxs)
  note s = scatter_loop_step [OF Cons.prems(1)]
  from Cons.IH [OF s(6) grid_update_shape [OF Cons.prems(2)] grid_update_shape [OF Cons.prems(3)]]
  show ?case by simp
qed

lemma scatter_loop_other:
  "scatter_loop w idxs offs norms oz nz = Inr (oz', nz')
     \<Longrightarrow> \<forall>idx \<in> set idxs. (DecodeMorton2X (int idx), DecodeMorton2Y (int idx)) \<noteq> (int x, int y)
     \<Longrightarrow> oz' ! y ! x = oz ! y ! x \<and> nz' ! y ! x = nz ! y ! x"
proof (induction idxs arbitrary: oz nz)
  case Nil
  then show ?case by simp
next
  case (Cons idx idxs)
  note s = scatter_loop_step [OF Cons.prems(1)]
  have "(DecodeMorton2X (int idx), DecodeMorton2Y (int idx)) \<noteq> (int x, int y)"
    using Cons.prems(2) by simp
  then have ne: "(nat (DecodeMorton2X (int idx)), nat (DecodeMorton2Y (int idx))) \<noteq> (x, y)"
    using X_nonneg [of "int idx"] Y_nonneg [of "int idx"] by auto
  have "\<forall>idx \<in> set idxs. (DecodeMorton2X (int idx), DecodeMorton2Y (int idx)) \<noteq> (int x, int y)"
    using Cons.prems(2) by simp
  from Cons.IH [OF s(6) this] show ?case
    by (simp add: grid_update_other [OF ne])
qed

lemma scatter_loop_hit:
  "scatter_loop w idxs offs norms oz nz = Inr (oz', nz')
     \<Longrightarrow> \<forall>r \<in> set oz. length r = w \<Longrightarrow> \<forall>r \<in> set nz. length r = w
     \<Longrightarrow> distinct idxs
     \<Longrightarrow> \<forall>i \<in> set idxs. \<forall>j \<in> set idxs. i \<noteq> j \<longrightarrow>
           (DecodeMorton2X (int i), DecodeMorton2Y (int i)) \<noteq> (DecodeMorton2X (int j), DecodeMorton2Y (int j))
     \<Longrightarrow> idx \<in> set idxs
     \<Longrightarrow> oz' ! nat (DecodeMorton2Y (int idx)) ! nat (DecodeMorton2X (int idx)) = offs ! idx \<and>
         nz' ! nat (DecodeMorton2Y (int idx)) ! nat (DecodeMorton2X (int idx)) = norms ! idx"
proof (induction idxs arbitrary: oz nz)
  case Nil
  then show ?case by simp
next
  case (Cons i0 idxs)
  note s = scatter_loop_step [OF Cons.prems(1)]
  let ?y = "nat (DecodeMorton2Y (int i0))" and ?x = "nat (DecodeMorton2X (int i0))"
  let ?oz1 = "oz[?y := (oz ! ?y)[?x := offs ! i0]]"
  let ?nz1 = "nz[?y := (nz ! ?y)[?x := norms ! i0]]"
  show ?case
  proof (cases "idx = i0")
    case True
    have "\<forall>j \<in> set idxs. (DecodeMorton2X (int j), DecodeMorton2Y (int j)) \<noteq> (int ?x, int ?y)"
    proof
      fix j assume j: "j \<in> set idxs"
      then have "j \<noteq> i0" using Cons.prems(4) by auto
      then have "(DecodeMorton2X (int i0), DecodeMorton2Y (int i0))
          \<noteq> (DecodeMorton2X (int j), DecodeMorton2Y (int j))"
        using Cons.prems(5) j by (metis list.set_intros(1) list.set_intros(2))
      then show "(DecodeMorton2X (int j), DecodeMorton2Y (int j)) \<noteq> (int ?x, int ?y)"
        using X_nonneg [of "int i0"] Y_nonneg [of "int i0"] by auto
    qed
    from scatter_loop_other [OF s(6) this]
    have "oz' ! ?y ! ?x = ?oz1 ! ?y ! ?x" "nz' ! ?y ! ?x = ?nz1 ! ?y ! ?x" by simp_all
    moreover have yo: "?y < length oz" and yn: "?y < length nz" and xw: "?x < w"
      using s(3,4,5) X_nonneg [of "int i0"] Y_nonneg [of "int i0"] by simp_all
    moreover have "?x < length (oz ! ?y)" "?x < length (nz ! ?y)"
      using Cons.prems(2,3) yo yn xw by simp_all
    ultimately show ?thesis using True by simp
  next
    case False
    then have m: "idx \<in> set idxs" using Cons.prems(6) by simp
    have d: "distinct idxs" using Cons.prems(4) by simp
    have inj: "\<forall>i \<in> set idxs. \<forall>j \<in> set idxs. i \<noteq> j \<longrightarrow>
           (DecodeMorton2X (int i), DecodeMorton2Y (int i)) \<noteq> (DecodeMorton2X (int j), DecodeMorton2Y (int j))"
      using Cons.prems(5) by simp
    from Cons.IH [OF s(6) grid_update_shape [OF Cons.prems(2)] grid_update_shape [OF Cons.prems(3)]
        d inj m]
    show ?thesis .
  qed
qed

lemma scatter_loop_total:
  "\<forall>idx \<in> set idxs. idx < length offs \<and> idx < length norms \<and>
        DecodeMorton2X (int idx) < int w \<and> DecodeMorton2Y (int idx) < int (length oz)
     \<Longrightarrow> length nz = length oz
     \<Longrightarrow> \<exists>oz' nz'. scatter_loop w idxs offs norms oz nz = Inr (oz', nz')"
proof (induction idxs arbitrary: oz nz)
  case Nil
  then show ?case by simp
next
  case (Cons idx idxs)
  let ?y = "DecodeMorton2Y (int idx)" and ?x = "DecodeMorton2X (int idx)"
  let ?oz1 = "oz[nat ?y := (oz ! nat ?y)[nat ?x := offs ! idx]]"
  let ?nz1 = "nz[nat ?y := (nz ! nat ?y)[nat ?x := norms ! idx]]"
  have b: "idx < length offs" "idx < length norms" "?x < int w" "?y < int (length oz)"
    using Cons.prems(1) by simp_all
  have o: "np_setitem2 oz w ?y ?x (offs ! idx) = Inr ?oz1"
    by (rule np_setitem2_Inr [OF Y_nonneg b(4) X_nonneg b(3)])
  have n: "np_setitem2 nz w ?y ?x (norms ! idx) = Inr ?nz1"
    using b(4) Cons.prems(2) by (intro np_setitem2_Inr [OF Y_nonneg _ X_nonneg b(3)]) simp
  have "\<forall>idx \<in> set idxs. idx < length offs \<and> idx < length norms \<and>
        DecodeMorton2X (int idx) < int w \<and> DecodeMorton2Y (int idx) < int (length ?oz1)"
    using Cons.prems(1) by simp
  moreover have "length ?nz1 = length ?oz1" using Cons.prems(2) by simp
  ultimately obtain oz' nz' where
    "scatter_loop w idxs offs norms ?oz1 ?nz1 = Inr (oz', nz')"
    using Cons.IH by blast
  then show ?case using b o n by (simp add: Let_def slice4_def)
qed

subsection \<open>The Z-curve branch as a whole\<close>

lemma np_zeros_shape:
  "length (np_zeros h w) = nat h" "\<forall>r \<in> set (np_zeros h w). length r = nat w"
  by (simp_all add: np_zeros_def)

lemma np_zeros_nth:
  assumes "y < nat h" "x < nat w"
  shows "np_zeros h w ! y ! x = zero_pixel"
  using assms by (simp add: np_zeros_def)

lemma morton_inj_nat:
  assumes "i < n" "j < n" "n \<le> 2 ^ 32" "i \<noteq> j"
  shows "(DecodeMorton2X (int i), DecodeMorton2Y (int i)) \<noteq> (DecodeMorton2X (int j), DecodeMorton2Y (int j))"
proof
  assume "(DecodeMorton2X (int i), DecodeMorton2Y (int i)) = (DecodeMorton2X (int j), DecodeMorton2Y (int j))"
  then have e: "DecodeMorton2X (int i) = DecodeMorton2X (int j)" "DecodeMorton2Y (int i) = DecodeMorton2Y (int j)"
    by simp_all
  have "i < 2 ^ 32" by (rule less_le_trans [OF assms(1) assms(3)])
  then have "int i < int (2 ^ 32)" by (simp only: of_nat_less_iff)
  then have a: "int i < 2 ^ 32" by (simp only: of_nat_power of_nat_numeral)
  have "j < 2 ^ 32" by (rule less_le_trans [OF assms(2) assms(3)])
  then have "int j < int (2 ^ 32)" by (simp only: of_nat_less_iff)
  then have b: "int j < 2 ^ 32" by (simp only: of_nat_power of_nat_numeral)
  have "int i = int j" by (rule morton_inj [OF _ a _ b e]) simp_all
  then show False using assms(4) by simp
qed

lemma zcurve_layout_grids:
  assumes ne: "offsets \<noteq> []" and len: "length normals = length offsets"
    and small: "length offsets \<le> 2 ^ 32"
    and W: "W = ceil_to (Max ((\<lambda>idx. DecodeMorton2X (int idx)) ` {0..<length offsets}) + 1) 32"
    and H: "H = ceil_to (Max ((\<lambda>idx. DecodeMorton2Y (int idx)) ` {0..<length offsets}) + 1) 32"
  shows "\<exists>oz nz.
    zcurve_layout offsets normals =
      Inr \<lparr>imageWidth = W, imageHeight = H, offset_pixels = concat oz, normal_pixels = concat nz\<rparr> \<and>
    length oz = nat H \<and> length nz = nat H \<and>
    (\<forall>r \<in> set oz. length r = nat W) \<and> (\<forall>r \<in> set nz. length r = nat W) \<and>
    (\<forall>idx < length offsets.
       oz ! nat (DecodeMorton2Y (int idx)) ! nat (DecodeMorton2X (int idx)) = offsets ! idx \<and>
       nz ! nat (DecodeMorton2Y (int idx)) ! nat (DecodeMorton2X (int idx)) = normals ! idx) \<and>
    (\<forall>y x. y < nat H \<longrightarrow> x < nat W \<longrightarrow>
       (\<forall>idx < length offsets. (DecodeMorton2X (int idx), DecodeMorton2Y (int idx)) \<noteq> (int x, int y)) \<longrightarrow>
       oz ! y ! x = zero_pixel \<and> nz ! y ! x = zero_pixel)"
proof -
  let ?n = "length offsets"
  have n: "0 < ?n" using ne by simp
  have size: "zcurve_size ?n = Inr (W, H)" unfolding W H by (rule zcurve_size_eq [OF n])
  have inb: "\<forall>idx \<in> set [0..<?n]. idx < length offsets \<and> idx < length normals \<and>
        DecodeMorton2X (int idx) < int (nat W) \<and> DecodeMorton2Y (int idx) < int (length (np_zeros H W))"
  proof
    fix idx assume "idx \<in> set [0..<?n]"
    then have i: "idx < ?n" by simp
    have "DecodeMorton2X (int idx) < W" unfolding W by (rule X_lt_width [OF i])
    moreover have "DecodeMorton2Y (int idx) < H" unfolding H by (rule Y_lt_height [OF i])
    ultimately show "idx < length offsets \<and> idx < length normals \<and>
        DecodeMorton2X (int idx) < int (nat W) \<and> DecodeMorton2Y (int idx) < int (length (np_zeros H W))"
      using i len by (simp add: np_zeros_shape(1))
  qed
  have "length (np_zeros H W) = length (np_zeros H W)" by simp
  from scatter_loop_total [OF inb this] obtain oz nz where
    sc: "scatter_loop (nat W) [0..<?n] offsets normals (np_zeros H W) (np_zeros H W) = Inr (oz, nz)"
    by blast
  have lay: "zcurve_layout offsets normals =
      Inr \<lparr>imageWidth = W, imageHeight = H, offset_pixels = concat oz, normal_pixels = concat nz\<rparr>"
    unfolding zcurve_layout_def Let_def size using sc by simp
  note sh = scatter_loop_shape [OF sc np_zeros_shape(2) np_zeros_shape(2)]
  have inj: "\<forall>i \<in> set [0..<?n]. \<forall>j \<in> set [0..<?n]. i \<noteq> j \<longrightarrow>
      (DecodeMorton2X (int i), DecodeMorton2Y (int i)) \<noteq> (DecodeMorton2X (int j), DecodeMorton2Y (int j))"
  proof (intro ballI impI)
    fix i j assume "i \<in> set [0..<?n]" "j \<in> set [0..<?n]" and d: "i \<noteq> j"
    then have "i < ?n" "j < ?n" by simp_all
    from morton_inj_nat [OF this small d]
    show "(DecodeMorton2X (int i), DecodeMorton2Y (int i)) \<noteq> (DecodeMorton2X (int j), DecodeMorton2Y (int j))" .
  qed
  have hit: "\<forall>idx < ?n.
       oz ! nat (DecodeMorton2Y (int idx)) ! nat (DecodeMorton2X (int idx)) = offsets ! idx \<and>
       nz ! nat (DecodeMorton2Y (int idx)) ! nat (DecodeMorton2X (int idx)) = normals ! idx"
  proof (intro allI impI)
    fix idx assume "idx < ?n"
    then have m: "idx \<in> set [0..<?n]" by simp
    show "oz ! nat (DecodeMorton2Y (int idx)) ! nat (DecodeMorton2X (int idx)) = offsets ! idx \<and>
       nz ! nat (DecodeMorton2Y (int idx)) ! nat (DecodeMorton2X (int idx)) = normals ! idx"
      by (rule scatter_loop_hit [OF sc np_zeros_shape(2) np_zeros_shape(2) distinct_upt inj m])
  qed
  have other: "\<forall>y x. y < nat H \<longrightarrow> x < nat W \<longrightarrow>
       (\<forall>idx < ?n. (DecodeMorton2X (int idx), DecodeMorton2Y (int idx)) \<noteq> (int x, int y)) \<longrightarrow>
       oz ! y ! x = zero_pixel \<and> nz ! y ! x = zero_pixel"
  proof (intro allI impI)
    fix y x assume y: "y < nat H" and x: "x < nat W"
      and a: "\<forall>idx < ?n. (DecodeMorton2X (int idx), DecodeMorton2Y (int idx)) \<noteq> (int x, int y)"
    have "\<forall>idx \<in> set [0..<?n]. (DecodeMorton2X (int idx), DecodeMorton2Y (int idx)) \<noteq> (int x, int y)"
      using a by simp
    from scatter_loop_other [OF sc this]
    have "oz ! y ! x = np_zeros H W ! y ! x \<and> nz ! y ! x = np_zeros H W ! y ! x" .
    then show "oz ! y ! x = zero_pixel \<and> nz ! y ! x = zero_pixel"
      unfolding np_zeros_nth [OF y x] .
  qed
  show ?thesis
  proof (rule exI [of _ oz], rule exI [of _ nz], intro conjI)
    show "zcurve_layout offsets normals =
      Inr \<lparr>imageWidth = W, imageHeight = H, offset_pixels = concat oz, normal_pixels = concat nz\<rparr>"
      by (rule lay)
    show "length oz = nat H" using sh by (simp add: np_zeros_shape(1))
    show "length nz = nat H" using sh by (simp add: np_zeros_shape(1))
    show "\<forall>r \<in> set oz. length r = nat W" using sh by blast
    show "\<forall>r \<in> set nz. length r = nat W" using sh by blast
    show "\<forall>idx < length offsets.
       oz ! nat (DecodeMorton2Y (int idx)) ! nat (DecodeMorton2X (int idx)) = offsets ! idx \<and>
       nz ! nat (DecodeMorton2Y (int idx)) ! nat (DecodeMorton2X (int idx)) = normals ! idx"
      by (rule hit)
    show "\<forall>y x. y < nat H \<longrightarrow> x < nat W \<longrightarrow>
       (\<forall>idx < length offsets. (DecodeMorton2X (int idx), DecodeMorton2Y (int idx)) \<noteq> (int x, int y)) \<longrightarrow>
       oz ! y ! x = zero_pixel \<and> nz ! y ! x = zero_pixel"
      by (rule other)
  qed
qed

lemma zcurve_layout_cells:
  assumes ne: "offsets \<noteq> []" and len: "length normals = length offsets"
    and small: "length offsets \<le> 2 ^ 32"
    and W: "W = ceil_to (Max ((\<lambda>idx. DecodeMorton2X (int idx)) ` {0..<length offsets}) + 1) 32"
    and H: "H = ceil_to (Max ((\<lambda>idx. DecodeMorton2Y (int idx)) ` {0..<length offsets}) + 1) 32"
  shows "\<exists>out.
    zcurve_layout offsets normals = Inr out \<and>
    imageWidth out = W \<and> imageHeight out = H \<and>
    length (offset_pixels out) = nat H * nat W \<and> length (normal_pixels out) = nat H * nat W \<and>
    (\<forall>idx < length offsets.
       DecodeMorton2X (int idx) < W \<and> DecodeMorton2Y (int idx) < H \<and>
       offset_pixels out ! (nat (DecodeMorton2Y (int idx)) * nat W + nat (DecodeMorton2X (int idx)))
         = offsets ! idx \<and>
       normal_pixels out ! (nat (DecodeMorton2Y (int idx)) * nat W + nat (DecodeMorton2X (int idx)))
         = normals ! idx) \<and>
    (\<forall>y x. y < nat H \<longrightarrow> x < nat W \<longrightarrow>
       (\<forall>idx < length offsets. (DecodeMorton2X (int idx), DecodeMorton2Y (int idx)) \<noteq> (int x, int y)) \<longrightarrow>
       offset_pixels out ! (y * nat W + x) = zero_pixel \<and>
       normal_pixels out ! (y * nat W + x) = zero_pixel)"
proof -
  from zcurve_layout_grids [OF ne len small W H] obtain oz nz where
    lay: "zcurve_layout offsets normals =
      Inr \<lparr>imageWidth = W, imageHeight = H, offset_pixels = concat oz, normal_pixels = concat nz\<rparr>"
    and lo: "length oz = nat H" and ln: "length nz = nat H"
    and ro: "\<forall>r \<in> set oz. length r = nat W" and rn: "\<forall>r \<in> set nz. length r = nat W"
    and hit: "\<forall>idx < length offsets.
       oz ! nat (DecodeMorton2Y (int idx)) ! nat (DecodeMorton2X (int idx)) = offsets ! idx \<and>
       nz ! nat (DecodeMorton2Y (int idx)) ! nat (DecodeMorton2X (int idx)) = normals ! idx"
    and other: "\<forall>y x. y < nat H \<longrightarrow> x < nat W \<longrightarrow>
       (\<forall>idx < length offsets. (DecodeMorton2X (int idx), DecodeMorton2Y (int idx)) \<noteq> (int x, int y)) \<longrightarrow>
       oz ! y ! x = zero_pixel \<and> nz ! y ! x = zero_pixel"
    by blast
  let ?out = "\<lparr>imageWidth = W, imageHeight = H, offset_pixels = concat oz, normal_pixels = concat nz\<rparr>"
  have l: "length (offset_pixels ?out) = nat H * nat W" "length (normal_pixels ?out) = nat H * nat W"
    using concat_length [OF ro] concat_length [OF rn] lo ln by simp_all
  have h: "\<forall>idx < length offsets.
       DecodeMorton2X (int idx) < W \<and> DecodeMorton2Y (int idx) < H \<and>
       offset_pixels ?out ! (nat (DecodeMorton2Y (int idx)) * nat W + nat (DecodeMorton2X (int idx)))
         = offsets ! idx \<and>
       normal_pixels ?out ! (nat (DecodeMorton2Y (int idx)) * nat W + nat (DecodeMorton2X (int idx)))
         = normals ! idx"
  proof (intro allI impI)
    fix idx assume i: "idx < length offsets"
    have x: "DecodeMorton2X (int idx) < W" unfolding W by (rule X_lt_width [OF i])
    have y: "DecodeMorton2Y (int idx) < H" unfolding H by (rule Y_lt_height [OF i])
    have xn: "nat (DecodeMorton2X (int idx)) < nat W" using x X_nonneg [of "int idx"] by simp
    have yn: "nat (DecodeMorton2Y (int idx)) < nat H" using y Y_nonneg [of "int idx"] by simp
    have "concat oz ! (nat (DecodeMorton2Y (int idx)) * nat W + nat (DecodeMorton2X (int idx)))
        = oz ! nat (DecodeMorton2Y (int idx)) ! nat (DecodeMorton2X (int idx))"
      using yn lo by (intro concat_nth [OF ro _ xn]) simp
    moreover have "concat nz ! (nat (DecodeMorton2Y (int idx)) * nat W + nat (DecodeMorton2X (int idx)))
        = nz ! nat (DecodeMorton2Y (int idx)) ! nat (DecodeMorton2X (int idx))"
      using yn ln by (intro concat_nth [OF rn _ xn]) simp
    moreover have "oz ! nat (DecodeMorton2Y (int idx)) ! nat (DecodeMorton2X (int idx)) = offsets ! idx \<and>
       nz ! nat (DecodeMorton2Y (int idx)) ! nat (DecodeMorton2X (int idx)) = normals ! idx"
      using hit i by blast
    ultimately show "DecodeMorton2X (int idx) < W \<and> DecodeMorton2Y (int idx) < H \<and>
       offset_pixels ?out ! (nat (DecodeMorton2Y (int idx)) * nat W + nat (DecodeMorton2X (int idx)))
         = offsets ! idx \<and>
       normal_pixels ?out ! (nat (DecodeMorton2Y (int idx)) * nat W + nat (DecodeMorton2X (int idx)))
         = normals ! idx"
      using x y by simp
  qed
  have o: "\<forall>y x. y < nat H \<longrightarrow> x < nat W \<longrightarrow>
       (\<forall>idx < length offsets. (DecodeMorton2X (int idx), DecodeMorton2Y (int idx)) \<noteq> (int x, int y)) \<longrightarrow>
       offset_pixels ?out ! (y * nat W + x) = zero_pixel \<and>
       normal_pixels ?out ! (y * nat W + x) = zero_pixel"
  proof (intro allI impI)
    fix y x assume y: "y < nat H" and x: "x < nat W"
      and a: "\<forall>idx < length offsets. (DecodeMorton2X (int idx), DecodeMorton2Y (int idx)) \<noteq> (int x, int y)"
    have "concat oz ! (y * nat W + x) = oz ! y ! x"
      using y lo by (intro concat_nth [OF ro _ x]) simp
    moreover have "concat nz ! (y * nat W + x) = nz ! y ! x"
      using y ln by (intro concat_nth [OF rn _ x]) simp
    moreover have "oz ! y ! x = zero_pixel \<and> nz ! y ! x = zero_pixel"
      using other y x a by blast
    ultimately show "offset_pixels ?out ! (y * nat W + x) = zero_pixel \<and>
       normal_pixels ?out ! (y * nat W + x) = zero_pixel"
      by simp
  qed
  show ?thesis
  proof (rule exI [of _ ?out], intro conjI)
    show "zcurve_layout offsets normals = Inr ?out" by (rule lay)
    show "imageWidth ?out = W" by simp
    show "imageHeight ?out = H" by simp
    show "length (offset_pixels ?out) = nat H * nat W" by (rule l(1))
    show "length (normal_pixels ?out) = nat H * nat W" by (rule l(2))
    show "\<forall>idx < length offsets.
       DecodeMorton2X (int idx) < W \<and> DecodeMorton2Y (int idx) < H \<and>
       offset_pixels ?out ! (nat (DecodeMorton2Y (int idx)) * nat W + nat (DecodeMorton2X (int idx)))
         = offsets ! idx \<and>
       normal_pixels ?out ! (nat (DecodeMorton2Y (int idx)) * nat W + nat (DecodeMorton2X (int idx)))
         = normals ! idx"
      by (rule h)
    show "\<forall>y x. y < nat H \<longrightarrow> x < nat W \<longrightarrow>
       (\<forall>idx < length offsets. (DecodeMorton2X (int idx), DecodeMorton2Y (int idx)) \<noteq> (int x, int y)) \<longrightarrow>
       offset_pixels ?out ! (y * nat W + x) = zero_pixel \<and>
       normal_pixels ?out ! (y * nat W + x) = zero_pixel"
      by (rule o)
  qed
qed

subsection \<open>The buffers that reach the layout\<close>

lemma well_formed_count:
  assumes wf: "well_formed meshes vc fc" and fc: "0 < fc"
  shows "0 \<le> vc" "length (vertices (hd meshes)) * length meshes = nat (vc * fc)"
proof -
  have lm: "length meshes = nat fc" by (rule well_formed_D(1) [OF wf])
  then have "meshes \<noteq> []" using fc by auto
  then have "hd meshes \<in> set meshes" by simp
  then have lv: "length (vertices (hd meshes)) = nat vc"
    using well_formed_D(2) [OF wf] by blast
  have "int (length (vertices (hd meshes))) = vc"
    using wf \<open>hd meshes \<in> set meshes\<close> unfolding well_formed_def list_all_iff by blast
  then show vc: "0 \<le> vc" by linarith
  show "length (vertices (hd meshes)) * length meshes = nat (vc * fc)"
    unfolding lv lm using vc fc by (simp add: nat_mult_distrib)
qed

lemma buffers_returned:
  assumes wf: "well_formed meshes vc fc" and fc: "0 < fc" and en: "encodable mu meshes"
  shows "\<exists>offsets normals. get_vertex_data mu meshes vc fc = Inr (offsets, normals) \<and>
    length offsets = nat (vc * fc) + 1 \<and> length normals = nat (vc * fc) + 1"
proof -
  from get_vertex_data_returns [OF wf fc en] obtain offsets normals where
    g: "get_vertex_data mu meshes vc fc = Inr (offsets, normals)" by blast
  show ?thesis
    using g get_vertex_data_length [OF g] well_formed_count(2) [OF wf fc] by simp
qed

lemma capacity_check_None:
  assumes "capacity_check vc fc = None"
  shows "vc \<le> 4096 * 4095" "fc \<le> 4096" "fc * vc + 1 \<le> 8192 * 8192"
  using assms by (simp_all add: capacity_check_def split: if_splits)

lemma execute_passes:
  assumes "capacity_check vc fc = None" "get_vertex_data mu meshes vc fc = Inr (offsets, normals)"
  shows "execute mu True vc fc meshes True = zcurve_layout offsets normals"
    and "execute mu True vc fc meshes False = Inr (linear_layout vc fc offsets normals)"
  using assms by (simp_all add: execute_def)

section \<open>The linear layout\<close>

text \<open>
  Claim C9. In linear mode, on well-formed meshes that the encoder can process and that
  pass the capacity checks, \<^verbatim>\<open>execute\<close> returns textures of width \<open>vertex_count\<close> and height
  \<open>frame_count\<close>, the same for both buffers. Each texture is its buffer without the header
  pixel, so it has \<open>vertex_count * frame_count\<close> pixels, and the data pixel \<open>i\<close> (pixel
  \<open>1 + i\<close> of the buffer) is at cell \<open>(i mod width, i div width)\<close>, a cell of the grid. The
  textures are handed to the image as flat row-major lists, so the cell \<open>(x, y)\<close> is the
  pixel \<open>y * width + x\<close> of the list.
\<close>

theorem C9_linear_layout:
  assumes wf: "well_formed meshes vertex_count frame_count" and fc: "0 < frame_count"
    and en: "encodable mu meshes" and cap: "capacity_check vertex_count frame_count = None"
  shows "\<exists>out offsets normals.
    execute mu True vertex_count frame_count meshes False = Inr out \<and>
    get_vertex_data mu meshes vertex_count frame_count = Inr (offsets, normals) \<and>
    imageWidth out = vertex_count \<and> imageHeight out = frame_count \<and>
    offset_pixels out = drop 1 offsets \<and> normal_pixels out = drop 1 normals \<and>
    length (offset_pixels out) = nat vertex_count * nat frame_count \<and>
    length (normal_pixels out) = nat vertex_count * nat frame_count \<and>
    (\<forall>i < nat vertex_count * nat frame_count.
       i mod nat (imageWidth out) < nat (imageWidth out) \<and>
       i div nat (imageWidth out) < nat (imageHeight out) \<and>
       offset_pixels out ! (i div nat (imageWidth out) * nat (imageWidth out) + i mod nat (imageWidth out))
         = offsets ! (1 + i) \<and>
       normal_pixels out ! (i div nat (imageWidth out) * nat (imageWidth out) + i mod nat (imageWidth out))
         = normals ! (1 + i))"
proof -
  from buffers_returned [OF wf fc en] obtain offsets normals where
    g: "get_vertex_data mu meshes vertex_count frame_count = Inr (offsets, normals)"
    and lo: "length offsets = nat (vertex_count * frame_count) + 1"
    and ln: "length normals = nat (vertex_count * frame_count) + 1" by blast
  let ?out = "linear_layout vertex_count frame_count offsets normals"
  have ex: "execute mu True vertex_count frame_count meshes False = Inr ?out"
    by (rule execute_passes(2) [OF cap g])
  have vc: "0 \<le> vertex_count" by (rule well_formed_count(1) [OF wf fc])
  have m: "nat (vertex_count * frame_count) = nat vertex_count * nat frame_count"
    using vc fc by (simp add: nat_mult_distrib)
  have sel: "imageWidth ?out = vertex_count" "imageHeight ?out = frame_count"
    "offset_pixels ?out = drop 1 offsets" "normal_pixels ?out = drop 1 normals"
    by (simp_all add: linear_layout_def)
  have l: "length (offset_pixels ?out) = nat vertex_count * nat frame_count"
    "length (normal_pixels ?out) = nat vertex_count * nat frame_count"
    unfolding sel using lo ln m by simp_all
  have cells: "\<forall>i < nat vertex_count * nat frame_count.
       i mod nat (imageWidth ?out) < nat (imageWidth ?out) \<and>
       i div nat (imageWidth ?out) < nat (imageHeight ?out) \<and>
       offset_pixels ?out ! (i div nat (imageWidth ?out) * nat (imageWidth ?out) + i mod nat (imageWidth ?out))
         = offsets ! (1 + i) \<and>
       normal_pixels ?out ! (i div nat (imageWidth ?out) * nat (imageWidth ?out) + i mod nat (imageWidth ?out))
         = normals ! (1 + i)"
    unfolding sel
  proof (intro allI impI)
    fix i assume i: "i < nat vertex_count * nat frame_count"
    have p: "0 < nat vertex_count" using i by (cases "nat vertex_count = 0") simp_all
    have a: "i mod nat vertex_count < nat vertex_count" using p by simp
    have "i < nat frame_count * nat vertex_count" using i by (simp only: mult.commute)
    then have b: "i div nat vertex_count < nat frame_count" by (rule less_mult_imp_div_less)
    have c: "i div nat vertex_count * nat vertex_count + i mod nat vertex_count = i" by simp
    have d: "drop 1 offsets ! i = offsets ! (1 + i)" using lo by simp
    have e: "drop 1 normals ! i = normals ! (1 + i)" using ln by simp
    show "i mod nat vertex_count < nat vertex_count \<and>
       i div nat vertex_count < nat frame_count \<and>
       drop 1 offsets ! (i div nat vertex_count * nat vertex_count + i mod nat vertex_count)
         = offsets ! (1 + i) \<and>
       drop 1 normals ! (i div nat vertex_count * nat vertex_count + i mod nat vertex_count)
         = normals ! (1 + i)"
      unfolding c using a b d e by simp
  qed
  show ?thesis
  proof (rule exI [of _ ?out], rule exI [of _ offsets], rule exI [of _ normals], intro conjI)
    show "execute mu True vertex_count frame_count meshes False = Inr ?out" by (rule ex)
    show "get_vertex_data mu meshes vertex_count frame_count = Inr (offsets, normals)" by (rule g)
    show "imageWidth ?out = vertex_count" by (rule sel)
    show "imageHeight ?out = frame_count" by (rule sel)
    show "offset_pixels ?out = drop 1 offsets" by (rule sel)
    show "normal_pixels ?out = drop 1 normals" by (rule sel)
    show "length (offset_pixels ?out) = nat vertex_count * nat frame_count" by (rule l)
    show "length (normal_pixels ?out) = nat vertex_count * nat frame_count" by (rule l)
    show "\<forall>i < nat vertex_count * nat frame_count.
       i mod nat (imageWidth ?out) < nat (imageWidth ?out) \<and>
       i div nat (imageWidth ?out) < nat (imageHeight ?out) \<and>
       offset_pixels ?out ! (i div nat (imageWidth ?out) * nat (imageWidth ?out) + i mod nat (imageWidth ?out))
         = offsets ! (1 + i) \<and>
       normal_pixels ?out ! (i div nat (imageWidth ?out) * nat (imageWidth ?out) + i mod nat (imageWidth ?out))
         = normals ! (1 + i)"
      by (rule cells)
  qed
qed

theorem C9_linear_layout_witness:
  "well_formed example_meshes 3 2 \<and> (0::int) < 2 \<and> encodable exact_mathutils example_meshes \<and>
   capacity_check 3 2 = None \<and>
   (\<exists>out. execute exact_mathutils True 3 2 example_meshes False = Inr out \<and>
      imageWidth out = 3 \<and> imageHeight out = 2 \<and>
      length (offset_pixels out) = 6 \<and> length (normal_pixels out) = 6 \<and>
      offset_pixels out ! (1 * 3 + 1) = (0, 0, 1, 1) \<and>
      normal_pixels out ! (1 * 3 + 1) = (0, 0, 0, 1))"
proof -
  have cap: "capacity_check 3 2 = None" by (simp add: capacity_check_def)
  have pos: "(0::int) < 2" by simp
  from C9_linear_layout [OF well_formed_example pos encodable_example cap]
  obtain out offsets normals where
    ex: "execute exact_mathutils True 3 2 example_meshes False = Inr out"
    and g: "get_vertex_data exact_mathutils example_meshes 3 2 = Inr (offsets, normals)"
    and w: "imageWidth out = 3" and h: "imageHeight out = 2"
    and lo: "length (offset_pixels out) = nat 3 * nat 2"
    and ln: "length (normal_pixels out) = nat 3 * nat 2"
    and cells: "\<forall>i < nat 3 * nat 2.
       i mod nat (imageWidth out) < nat (imageWidth out) \<and>
       i div nat (imageWidth out) < nat (imageHeight out) \<and>
       offset_pixels out ! (i div nat (imageWidth out) * nat (imageWidth out) + i mod nat (imageWidth out))
         = offsets ! (1 + i) \<and>
       normal_pixels out ! (i div nat (imageWidth out) * nat (imageWidth out) + i mod nat (imageWidth out))
         = normals ! (1 + i)"
    by blast
  have eq: "offsets = example_offsets" "normals = example_normals"
    using g get_vertex_data_example by simp_all
  have "(4::nat) < nat 3 * nat 2" by simp
  with cells have
    "offset_pixels out ! (4 div nat (imageWidth out) * nat (imageWidth out) + 4 mod nat (imageWidth out))
         = offsets ! (1 + 4) \<and>
     normal_pixels out ! (4 div nat (imageWidth out) * nat (imageWidth out) + 4 mod nat (imageWidth out))
         = normals ! (1 + 4)" by blast
  then have "offset_pixels out ! (1 * 3 + 1) = (0, 0, 1, 1) \<and>
      normal_pixels out ! (1 * 3 + 1) = (0, 0, 0, 1)"
    unfolding w eq by (simp add: example_offsets_def example_normals_def)
  then show ?thesis
    using well_formed_example encodable_example cap ex w h lo ln by simp
qed

section \<open>The Z-curve layout fits its texture\<close>

lemma zcurve_layout_size:
  assumes ne: "offsets \<noteq> []" and len: "length normals = length offsets"
  shows "\<exists>out. zcurve_layout offsets normals = Inr out \<and>
    imageWidth out = ceil_to (Max ((\<lambda>idx. DecodeMorton2X (int idx)) ` {0..<length offsets}) + 1) 32 \<and>
    imageHeight out = ceil_to (Max ((\<lambda>idx. DecodeMorton2Y (int idx)) ` {0..<length offsets}) + 1) 32"
proof -
  let ?n = "length offsets"
  let ?W = "ceil_to (Max ((\<lambda>idx. DecodeMorton2X (int idx)) ` {0..<length offsets}) + 1) 32"
  let ?H = "ceil_to (Max ((\<lambda>idx. DecodeMorton2Y (int idx)) ` {0..<length offsets}) + 1) 32"
  have n: "0 < ?n" using ne by simp
  have size: "zcurve_size ?n = Inr (?W, ?H)" by (rule zcurve_size_eq [OF n])
  have inb: "\<forall>idx \<in> set [0..<?n]. idx < length offsets \<and> idx < length normals \<and>
        DecodeMorton2X (int idx) < int (nat ?W) \<and> DecodeMorton2Y (int idx) < int (length (np_zeros ?H ?W))"
  proof
    fix idx assume "idx \<in> set [0..<?n]"
    then have i: "idx < ?n" by simp
    have "DecodeMorton2X (int idx) < ?W" by (rule X_lt_width [OF i])
    moreover have "DecodeMorton2Y (int idx) < ?H" by (rule Y_lt_height [OF i])
    ultimately show "idx < length offsets \<and> idx < length normals \<and>
        DecodeMorton2X (int idx) < int (nat ?W) \<and> DecodeMorton2Y (int idx) < int (length (np_zeros ?H ?W))"
      using i len by (simp add: np_zeros_shape(1))
  qed
  have "length (np_zeros ?H ?W) = length (np_zeros ?H ?W)" by simp
  from scatter_loop_total [OF inb this] obtain oz nz where
    sc: "scatter_loop (nat ?W) [0..<?n] offsets normals (np_zeros ?H ?W) (np_zeros ?H ?W) = Inr (oz, nz)"
    by blast
  have "zcurve_layout offsets normals =
      Inr \<lparr>imageWidth = ?W, imageHeight = ?H, offset_pixels = concat oz, normal_pixels = concat nz\<rparr>"
    unfolding zcurve_layout_def Let_def size using sc by simp
  then show ?thesis by simp
qed

text \<open>
  Claim C10. Both decoders return a value between 0 and \<open>0xFFFF\<close> for every integer. The
  Z-curve branch returns on every non-empty pair of buffers of one length (no write of
  its scatter loop is out of bounds), and for every index below the number of elements
  the decoded x is less than the computed width and the decoded y less than the computed
  height. With at most \<open>8192 * 8192\<close> elements both dimensions are at most 8192. So
  \<^verbatim>\<open>execute\<close> in Z-curve mode, on well-formed meshes that the encoder can process and that
  pass the capacity checks, returns a texture of at most 8192 by 8192 that holds the cell
  of every index below \<open>vertex_count * frame_count + 1\<close>.
\<close>

theorem C10_scatter_in_bounds:
  "(\<forall>code. 0 \<le> DecodeMorton2X code \<and> DecodeMorton2X code \<le> 0xFFFF \<and>
           0 \<le> DecodeMorton2Y code \<and> DecodeMorton2Y code \<le> 0xFFFF) \<and>
   (\<forall>offsets normals. offsets \<noteq> [] \<and> length normals = length offsets \<longrightarrow>
      (\<exists>out. zcurve_layout offsets normals = Inr out \<and>
         (\<forall>idx < length offsets.
            DecodeMorton2X (int idx) < imageWidth out \<and> DecodeMorton2Y (int idx) < imageHeight out) \<and>
         (length offsets \<le> 8192 * 8192 \<longrightarrow> imageWidth out \<le> 8192 \<and> imageHeight out \<le> 8192))) \<and>
   (\<forall>mu meshes vertex_count frame_count.
      well_formed meshes vertex_count frame_count \<and> 0 < frame_count \<and> encodable mu meshes \<and>
      capacity_check vertex_count frame_count = None \<longrightarrow>
      (\<exists>out. execute mu True vertex_count frame_count meshes True = Inr out \<and>
         (\<forall>idx < nat (vertex_count * frame_count + 1).
            DecodeMorton2X (int idx) < imageWidth out \<and> DecodeMorton2Y (int idx) < imageHeight out) \<and>
         imageWidth out \<le> 8192 \<and> imageHeight out \<le> 8192))"
proof -
  have layout: "\<exists>out. zcurve_layout offsets normals = Inr out \<and>
         (\<forall>idx < length offsets.
            DecodeMorton2X (int idx) < imageWidth out \<and> DecodeMorton2Y (int idx) < imageHeight out) \<and>
         (length offsets \<le> 8192 * 8192 \<longrightarrow> imageWidth out \<le> 8192 \<and> imageHeight out \<le> 8192)"
    if ne: "offsets \<noteq> []" and len: "length normals = length offsets" for offsets normals
  proof -
    from zcurve_layout_size [OF ne len] obtain out where
      z: "zcurve_layout offsets normals = Inr out"
      and w: "imageWidth out = ceil_to (Max ((\<lambda>idx. DecodeMorton2X (int idx)) ` {0..<length offsets}) + 1) 32"
      and h: "imageHeight out = ceil_to (Max ((\<lambda>idx. DecodeMorton2Y (int idx)) ` {0..<length offsets}) + 1) 32"
      by blast
    have n: "0 < length offsets" using ne by simp
    have a: "\<forall>idx < length offsets.
            DecodeMorton2X (int idx) < imageWidth out \<and> DecodeMorton2Y (int idx) < imageHeight out"
      unfolding w h using X_lt_width Y_lt_height by blast
    have b: "length offsets \<le> 8192 * 8192 \<longrightarrow> imageWidth out \<le> 8192 \<and> imageHeight out \<le> 8192"
      unfolding w h using width_le_8192 [OF n] height_le_8192 [OF n] by blast
    show ?thesis using z a b by blast
  qed
  have exec: "\<exists>out. execute mu True vertex_count frame_count meshes True = Inr out \<and>
         (\<forall>idx < nat (vertex_count * frame_count + 1).
            DecodeMorton2X (int idx) < imageWidth out \<and> DecodeMorton2Y (int idx) < imageHeight out) \<and>
         imageWidth out \<le> 8192 \<and> imageHeight out \<le> 8192"
    if wf: "well_formed meshes vertex_count frame_count" and fc: "0 < frame_count"
      and en: "encodable mu meshes" and cap: "capacity_check vertex_count frame_count = None"
    for mu meshes vertex_count frame_count
  proof -
    from buffers_returned [OF wf fc en] obtain offsets normals where
      g: "get_vertex_data mu meshes vertex_count frame_count = Inr (offsets, normals)"
      and lo: "length offsets = nat (vertex_count * frame_count) + 1"
      and ln: "length normals = nat (vertex_count * frame_count) + 1" by blast
    have vc: "0 \<le> vertex_count" by (rule well_formed_count(1) [OF wf fc])
    have nn: "0 \<le> vertex_count * frame_count" using vc fc by simp
    have n: "length offsets = nat (vertex_count * frame_count + 1)" using lo nn by simp
    have ne: "offsets \<noteq> []" using lo by auto
    have len: "length normals = length offsets" using lo ln by simp
    have "vertex_count * frame_count + 1 \<le> 8192 * 8192"
      using capacity_check_None(3) [OF cap] by (simp add: mult.commute)
    then have small: "length offsets \<le> 8192 * 8192" unfolding n by simp
    from layout [OF ne len] obtain out where
      z: "zcurve_layout offsets normals = Inr out"
      and a: "\<forall>idx < length offsets.
            DecodeMorton2X (int idx) < imageWidth out \<and> DecodeMorton2Y (int idx) < imageHeight out"
      and b: "length offsets \<le> 8192 * 8192 \<longrightarrow> imageWidth out \<le> 8192 \<and> imageHeight out \<le> 8192"
      by blast
    have "execute mu True vertex_count frame_count meshes True = Inr out"
      unfolding execute_passes(1) [OF cap g] by (rule z)
    then show ?thesis using a b small unfolding n by blast
  qed
  show ?thesis
  proof (intro conjI allI impI)
    fix code
    show "0 \<le> DecodeMorton2X code" by (rule X_nonneg)
    show "DecodeMorton2X code \<le> 0xFFFF" by (rule X_le)
    show "0 \<le> DecodeMorton2Y code" by (rule Y_nonneg)
    show "DecodeMorton2Y code \<le> 0xFFFF" by (rule Y_le)
  next
    fix offsets normals :: "pixel list"
    assume "offsets \<noteq> [] \<and> length normals = length offsets"
    then show "\<exists>out. zcurve_layout offsets normals = Inr out \<and>
         (\<forall>idx < length offsets.
            DecodeMorton2X (int idx) < imageWidth out \<and> DecodeMorton2Y (int idx) < imageHeight out) \<and>
         (length offsets \<le> 8192 * 8192 \<longrightarrow> imageWidth out \<le> 8192 \<and> imageHeight out \<le> 8192)"
      using layout by blast
  next
    fix mu meshes vertex_count frame_count
    assume "well_formed meshes vertex_count frame_count \<and> 0 < frame_count \<and> encodable mu meshes \<and>
      capacity_check vertex_count frame_count = None"
    then show "\<exists>out. execute mu True vertex_count frame_count meshes True = Inr out \<and>
         (\<forall>idx < nat (vertex_count * frame_count + 1).
            DecodeMorton2X (int idx) < imageWidth out \<and> DecodeMorton2Y (int idx) < imageHeight out) \<and>
         imageWidth out \<le> 8192 \<and> imageHeight out \<le> 8192"
      using exec by blast
  qed
qed

theorem C10_scatter_in_bounds_witness:
  "example_offsets \<noteq> [] \<and> length example_normals = length example_offsets \<and>
   length example_offsets \<le> 8192 * 8192 \<and>
   (\<exists>out. zcurve_layout example_offsets example_normals = Inr out \<and>
      DecodeMorton2X 6 = 2 \<and> 2 < imageWidth out \<and> DecodeMorton2Y 6 = 1 \<and> 1 < imageHeight out \<and>
      imageWidth out \<le> 8192 \<and> imageHeight out \<le> 8192) \<and>
   well_formed example_meshes 3 2 \<and> (0::int) < 2 \<and> encodable exact_mathutils example_meshes \<and>
   capacity_check 3 2 = None \<and>
   (\<exists>out. execute exact_mathutils True 3 2 example_meshes True = Inr out \<and>
      2 < imageWidth out \<and> 1 < imageHeight out \<and>
      imageWidth out \<le> 8192 \<and> imageHeight out \<le> 8192)"
proof -
  have x6: "DecodeMorton2X 6 = 2" by (simp add: DecodeMorton2X_def)
  have y6: "DecodeMorton2Y 6 = 1" by (simp add: DecodeMorton2Y_def)
  have h1: "example_offsets \<noteq> [] \<and> length example_normals = length example_offsets"
    by (simp add: example_offsets_def example_normals_def)
  have l: "length example_offsets = 7" by (simp add: example_offsets_def)
  from C10_scatter_in_bounds [THEN conjunct2, THEN conjunct1, rule_format, OF h1]
  obtain out where
    z: "zcurve_layout example_offsets example_normals = Inr out"
    and a: "\<forall>idx < length example_offsets.
            DecodeMorton2X (int idx) < imageWidth out \<and> DecodeMorton2Y (int idx) < imageHeight out"
    and b: "length example_offsets \<le> 8192 * 8192 \<longrightarrow> imageWidth out \<le> 8192 \<and> imageHeight out \<le> 8192"
    by blast
  have "(6::nat) < length example_offsets" unfolding l by simp
  with a have "DecodeMorton2X (int 6) < imageWidth out \<and> DecodeMorton2Y (int 6) < imageHeight out"
    by blast
  then have c: "2 < imageWidth out" "1 < imageHeight out" using x6 y6 by simp_all
  have d: "imageWidth out \<le> 8192" "imageHeight out \<le> 8192" using b l by simp_all
  have p1: "\<exists>out. zcurve_layout example_offsets example_normals = Inr out \<and>
      DecodeMorton2X 6 = 2 \<and> 2 < imageWidth out \<and> DecodeMorton2Y 6 = 1 \<and> 1 < imageHeight out \<and>
      imageWidth out \<le> 8192 \<and> imageHeight out \<le> 8192"
    using z x6 y6 c d by blast
  have cap: "capacity_check 3 2 = None" by (simp add: capacity_check_def)
  have h2: "well_formed example_meshes 3 2 \<and> (0::int) < 2 \<and> encodable exact_mathutils example_meshes \<and>
      capacity_check 3 2 = None"
    using well_formed_example encodable_example cap by simp
  from C10_scatter_in_bounds [THEN conjunct2, THEN conjunct2, rule_format, OF h2]
  obtain out' where
    e: "execute exact_mathutils True 3 2 example_meshes True = Inr out'"
    and a': "\<forall>idx < nat (3 * 2 + 1).
            DecodeMorton2X (int idx) < imageWidth out' \<and> DecodeMorton2Y (int idx) < imageHeight out'"
    and d': "imageWidth out' \<le> 8192" "imageHeight out' \<le> 8192"
    by blast
  have "(6::nat) < nat (3 * 2 + 1)" by simp
  with a' have "DecodeMorton2X (int 6) < imageWidth out' \<and> DecodeMorton2Y (int 6) < imageHeight out'"
    by blast
  then have c': "2 < imageWidth out'" "1 < imageHeight out'" using x6 y6 by simp_all
  have p2: "\<exists>out. execute exact_mathutils True 3 2 example_meshes True = Inr out \<and>
      2 < imageWidth out \<and> 1 < imageHeight out \<and>
      imageWidth out \<le> 8192 \<and> imageHeight out \<le> 8192"
    using e c' d' by blast
  show ?thesis using h1 l p1 h2 p2 by simp
qed

section \<open>The Z-curve layout\<close>

lemma example_cells:
  "DecodeMorton2X 0 = 0" "DecodeMorton2Y 0 = 0" "DecodeMorton2X 1 = 1" "DecodeMorton2Y 1 = 0"
  "DecodeMorton2X 2 = 0" "DecodeMorton2Y 2 = 1" "DecodeMorton2X 3 = 1" "DecodeMorton2Y 3 = 1"
  "DecodeMorton2X 4 = 2" "DecodeMorton2Y 4 = 0" "DecodeMorton2X 5 = 3" "DecodeMorton2Y 5 = 0"
  "DecodeMorton2X 6 = 2" "DecodeMorton2Y 6 = 1"
  by (simp_all add: DecodeMorton2X_def DecodeMorton2Y_def)

lemma lt7_cases:
  assumes "i < (7::nat)"
  shows "i = 0 \<or> i = 1 \<or> i = 2 \<or> i = 3 \<or> i = 4 \<or> i = 5 \<or> i = 6"
  using assms by arith

lemma example_range: "{0..<7::nat} = {0, 1, 2, 3, 4, 5, 6}"
  using lt7_cases by auto

lemma example_extent:
  "Max ((\<lambda>i. DecodeMorton2X (int i)) ` {0..<7}) = 3"
  "Max ((\<lambda>i. DecodeMorton2Y (int i)) ` {0..<7}) = 1"
  unfolding example_range by (simp_all add: example_cells)

lemma ceiling_fraction:
  assumes "0 < x" "x \<le> 1"
  shows "\<lceil>x :: real\<rceil> = 1"
  using assms by (intro ceiling_unique) simp_all

lemma example_free_cell:
  assumes "i < (7::nat)"
  shows "(DecodeMorton2X (int i), DecodeMorton2Y (int i)) \<noteq> (int 3, int 1)"
  using lt7_cases [OF assms] by (auto simp: example_cells)

text \<open>
  Claim C8. In Z-curve mode, on well-formed meshes that the encoder can process and that
  pass the capacity checks, \<^verbatim>\<open>execute\<close> returns, and for the
  \<open>vertex_count * frame_count + 1\<close> flat indices of the buffers: two distinct indices have
  distinct decoded cells; the width and the height of the texture are
  \<open>ceil((max + 1) / 32) * 32\<close> for the largest decoded x and the largest decoded y; every
  decoded cell lies within the grid and holds the pixel of its index, in both textures;
  and every cell of the grid that no index decodes to is \<open>(0, 0, 0, 0)\<close>. The textures are
  flat row-major lists of \<open>height * width\<close> pixels: the cell \<open>(x, y)\<close> is the pixel
  \<open>y * width + x\<close>.
\<close>

theorem C8_zcurve_layout:
  assumes wf: "well_formed meshes vertex_count frame_count" and fc: "0 < frame_count"
    and en: "encodable mu meshes" and cap: "capacity_check vertex_count frame_count = None"
  shows "\<exists>out offsets normals.
    execute mu True vertex_count frame_count meshes True = Inr out \<and>
    get_vertex_data mu meshes vertex_count frame_count = Inr (offsets, normals) \<and>
    length offsets = nat (vertex_count * frame_count + 1) \<and>
    length normals = nat (vertex_count * frame_count + 1) \<and>
    (\<forall>i < nat (vertex_count * frame_count + 1). \<forall>j < nat (vertex_count * frame_count + 1).
       i \<noteq> j \<longrightarrow>
       (DecodeMorton2X (int i), DecodeMorton2Y (int i)) \<noteq> (DecodeMorton2X (int j), DecodeMorton2Y (int j))) \<and>
    imageWidth out =
      \<lceil>real_of_int (Max ((\<lambda>i. DecodeMorton2X (int i)) ` {0..<nat (vertex_count * frame_count + 1)}) + 1) / 32\<rceil> * 32 \<and>
    imageHeight out =
      \<lceil>real_of_int (Max ((\<lambda>i. DecodeMorton2Y (int i)) ` {0..<nat (vertex_count * frame_count + 1)}) + 1) / 32\<rceil> * 32 \<and>
    length (offset_pixels out) = nat (imageHeight out) * nat (imageWidth out) \<and>
    length (normal_pixels out) = nat (imageHeight out) * nat (imageWidth out) \<and>
    (\<forall>i < nat (vertex_count * frame_count + 1).
       0 \<le> DecodeMorton2X (int i) \<and> DecodeMorton2X (int i) < imageWidth out \<and>
       0 \<le> DecodeMorton2Y (int i) \<and> DecodeMorton2Y (int i) < imageHeight out \<and>
       offset_pixels out ! (nat (DecodeMorton2Y (int i)) * nat (imageWidth out) + nat (DecodeMorton2X (int i)))
         = offsets ! i \<and>
       normal_pixels out ! (nat (DecodeMorton2Y (int i)) * nat (imageWidth out) + nat (DecodeMorton2X (int i)))
         = normals ! i) \<and>
    (\<forall>y x. y < nat (imageHeight out) \<longrightarrow> x < nat (imageWidth out) \<longrightarrow>
       (\<forall>i < nat (vertex_count * frame_count + 1).
          (DecodeMorton2X (int i), DecodeMorton2Y (int i)) \<noteq> (int x, int y)) \<longrightarrow>
       offset_pixels out ! (y * nat (imageWidth out) + x) = (0, 0, 0, 0) \<and>
       normal_pixels out ! (y * nat (imageWidth out) + x) = (0, 0, 0, 0))"
proof -
  from buffers_returned [OF wf fc en] obtain offsets normals where
    g: "get_vertex_data mu meshes vertex_count frame_count = Inr (offsets, normals)"
    and lo: "length offsets = nat (vertex_count * frame_count) + 1"
    and ln: "length normals = nat (vertex_count * frame_count) + 1" by blast
  have vc: "0 \<le> vertex_count" by (rule well_formed_count(1) [OF wf fc])
  have nn: "0 \<le> vertex_count * frame_count" using vc fc by simp
  have n: "nat (vertex_count * frame_count + 1) = length offsets" using lo nn by simp
  have n': "nat (vertex_count * frame_count + 1) = length normals" using ln nn by simp
  have ne: "offsets \<noteq> []" using lo by auto
  have len: "length normals = length offsets" using lo ln by simp
  have "vertex_count * frame_count + 1 \<le> 8192 * 8192"
    using capacity_check_None(3) [OF cap] by (simp add: mult.commute)
  then have "int (length offsets) \<le> 8192 * 8192" unfolding n [symmetric] by simp
  then have "int (length offsets) \<le> 2 ^ 32" by simp
  then have "int (length offsets) \<le> int (2 ^ 32)" by (simp only: of_nat_power of_nat_numeral)
  then have small: "length offsets \<le> 2 ^ 32" by (simp only: of_nat_le_iff)
  define W where "W = ceil_to (Max ((\<lambda>idx. DecodeMorton2X (int idx)) ` {0..<length offsets}) + 1) 32"
  define H where "H = ceil_to (Max ((\<lambda>idx. DecodeMorton2Y (int idx)) ` {0..<length offsets}) + 1) 32"
  from zcurve_layout_cells [OF ne len small W_def H_def] obtain out where
    o: "zcurve_layout offsets normals = Inr out \<and>
    imageWidth out = W \<and> imageHeight out = H \<and>
    length (offset_pixels out) = nat H * nat W \<and> length (normal_pixels out) = nat H * nat W \<and>
    (\<forall>idx < length offsets.
       DecodeMorton2X (int idx) < W \<and> DecodeMorton2Y (int idx) < H \<and>
       offset_pixels out ! (nat (DecodeMorton2Y (int idx)) * nat W + nat (DecodeMorton2X (int idx)))
         = offsets ! idx \<and>
       normal_pixels out ! (nat (DecodeMorton2Y (int idx)) * nat W + nat (DecodeMorton2X (int idx)))
         = normals ! idx) \<and>
    (\<forall>y x. y < nat H \<longrightarrow> x < nat W \<longrightarrow>
       (\<forall>idx < length offsets. (DecodeMorton2X (int idx), DecodeMorton2Y (int idx)) \<noteq> (int x, int y)) \<longrightarrow>
       offset_pixels out ! (y * nat W + x) = zero_pixel \<and>
       normal_pixels out ! (y * nat W + x) = zero_pixel)" ..
  note z = o [THEN conjunct1]
  note iw = o [THEN conjunct2, THEN conjunct1]
  note ih = o [THEN conjunct2, THEN conjunct2, THEN conjunct1]
  note l1 = o [THEN conjunct2, THEN conjunct2, THEN conjunct2, THEN conjunct1]
  note l2 = o [THEN conjunct2, THEN conjunct2, THEN conjunct2, THEN conjunct2, THEN conjunct1]
  note hit = o [THEN conjunct2, THEN conjunct2, THEN conjunct2, THEN conjunct2, THEN conjunct2,
    THEN conjunct1]
  note other = o [THEN conjunct2, THEN conjunct2, THEN conjunct2, THEN conjunct2, THEN conjunct2,
    THEN conjunct2]
  show ?thesis
  proof (rule exI [of _ out], rule exI [of _ offsets], rule exI [of _ normals], intro conjI)
    show "execute mu True vertex_count frame_count meshes True = Inr out"
      unfolding execute_passes(1) [OF cap g] by (rule z)
    show "get_vertex_data mu meshes vertex_count frame_count = Inr (offsets, normals)" by (rule g)
    show "length offsets = nat (vertex_count * frame_count + 1)" by (rule n [symmetric])
    show "length normals = nat (vertex_count * frame_count + 1)" by (rule n' [symmetric])
    show "\<forall>i < nat (vertex_count * frame_count + 1). \<forall>j < nat (vertex_count * frame_count + 1).
       i \<noteq> j \<longrightarrow>
       (DecodeMorton2X (int i), DecodeMorton2Y (int i)) \<noteq> (DecodeMorton2X (int j), DecodeMorton2Y (int j))"
      unfolding n
    proof (intro allI impI)
      fix i j assume "i < length offsets" "j < length offsets" and d: "i \<noteq> j"
      from morton_inj_nat [OF this(1) this(2) small d]
      show "(DecodeMorton2X (int i), DecodeMorton2Y (int i)) \<noteq> (DecodeMorton2X (int j), DecodeMorton2Y (int j))" .
    qed
    show "imageWidth out =
      \<lceil>real_of_int (Max ((\<lambda>i. DecodeMorton2X (int i)) ` {0..<nat (vertex_count * frame_count + 1)}) + 1) / 32\<rceil> * 32"
      unfolding n iw W_def ceil_to_def by simp
    show "imageHeight out =
      \<lceil>real_of_int (Max ((\<lambda>i. DecodeMorton2Y (int i)) ` {0..<nat (vertex_count * frame_count + 1)}) + 1) / 32\<rceil> * 32"
      unfolding n ih H_def ceil_to_def by simp
    show "length (offset_pixels out) = nat (imageHeight out) * nat (imageWidth out)"
      unfolding iw ih by (rule l1)
    show "length (normal_pixels out) = nat (imageHeight out) * nat (imageWidth out)"
      unfolding iw ih by (rule l2)
    show "\<forall>i < nat (vertex_count * frame_count + 1).
       0 \<le> DecodeMorton2X (int i) \<and> DecodeMorton2X (int i) < imageWidth out \<and>
       0 \<le> DecodeMorton2Y (int i) \<and> DecodeMorton2Y (int i) < imageHeight out \<and>
       offset_pixels out ! (nat (DecodeMorton2Y (int i)) * nat (imageWidth out) + nat (DecodeMorton2X (int i)))
         = offsets ! i \<and>
       normal_pixels out ! (nat (DecodeMorton2Y (int i)) * nat (imageWidth out) + nat (DecodeMorton2X (int i)))
         = normals ! i"
      unfolding n iw ih
    proof (intro allI impI)
      fix i assume i: "i < length offsets"
      from hit [THEN spec, THEN mp, OF i]
      show "0 \<le> DecodeMorton2X (int i) \<and> DecodeMorton2X (int i) < W \<and>
       0 \<le> DecodeMorton2Y (int i) \<and> DecodeMorton2Y (int i) < H \<and>
       offset_pixels out ! (nat (DecodeMorton2Y (int i)) * nat W + nat (DecodeMorton2X (int i)))
         = offsets ! i \<and>
       normal_pixels out ! (nat (DecodeMorton2Y (int i)) * nat W + nat (DecodeMorton2X (int i)))
         = normals ! i"
        using X_nonneg [of "int i"] Y_nonneg [of "int i"] by simp
    qed
    show "\<forall>y x. y < nat (imageHeight out) \<longrightarrow> x < nat (imageWidth out) \<longrightarrow>
       (\<forall>i < nat (vertex_count * frame_count + 1).
          (DecodeMorton2X (int i), DecodeMorton2Y (int i)) \<noteq> (int x, int y)) \<longrightarrow>
       offset_pixels out ! (y * nat (imageWidth out) + x) = (0, 0, 0, 0) \<and>
       normal_pixels out ! (y * nat (imageWidth out) + x) = (0, 0, 0, 0)"
      unfolding n iw ih using other unfolding zero_pixel_def .
  qed
qed

theorem C8_zcurve_layout_witness:
  "well_formed example_meshes 3 2 \<and> (0::int) < 2 \<and> encodable exact_mathutils example_meshes \<and>
   capacity_check 3 2 = None \<and>
   (\<exists>out. execute exact_mathutils True 3 2 example_meshes True = Inr out \<and>
      imageWidth out = 32 \<and> imageHeight out = 32 \<and>
      length (offset_pixels out) = 1024 \<and> length (normal_pixels out) = 1024 \<and>
      (DecodeMorton2X 4, DecodeMorton2Y 4) \<noteq> (DecodeMorton2X 5, DecodeMorton2Y 5) \<and>
      DecodeMorton2X 6 = 2 \<and> DecodeMorton2Y 6 = 1 \<and>
      offset_pixels out ! (1 * 32 + 2) = (0, 0, 1, 1) \<and>
      normal_pixels out ! (1 * 32 + 2) = (0, 0, 0, 1) \<and>
      offset_pixels out ! (1 * 32 + 3) = (0, 0, 0, 0) \<and>
      normal_pixels out ! (1 * 32 + 3) = (0, 0, 0, 0))"
proof -
  have cap: "capacity_check 3 2 = None" by (simp add: capacity_check_def)
  have pos: "(0::int) < 2" by simp
  have N: "nat (3 * 2 + 1) = 7" by simp
  from C8_zcurve_layout [OF well_formed_example pos encodable_example cap, unfolded N]
  obtain out offsets normals where
    ex: "execute exact_mathutils True 3 2 example_meshes True = Inr out"
    and g: "get_vertex_data exact_mathutils example_meshes 3 2 = Inr (offsets, normals)"
    and inj: "\<forall>i < 7. \<forall>j < 7. i \<noteq> j \<longrightarrow>
       (DecodeMorton2X (int i), DecodeMorton2Y (int i)) \<noteq> (DecodeMorton2X (int j), DecodeMorton2Y (int j))"
    and w: "imageWidth out = \<lceil>real_of_int (Max ((\<lambda>i. DecodeMorton2X (int i)) ` {0..<7}) + 1) / 32\<rceil> * 32"
    and h: "imageHeight out = \<lceil>real_of_int (Max ((\<lambda>i. DecodeMorton2Y (int i)) ` {0..<7}) + 1) / 32\<rceil> * 32"
    and lo: "length (offset_pixels out) = nat (imageHeight out) * nat (imageWidth out)"
    and ln: "length (normal_pixels out) = nat (imageHeight out) * nat (imageWidth out)"
    and hit: "\<forall>i < 7.
       0 \<le> DecodeMorton2X (int i) \<and> DecodeMorton2X (int i) < imageWidth out \<and>
       0 \<le> DecodeMorton2Y (int i) \<and> DecodeMorton2Y (int i) < imageHeight out \<and>
       offset_pixels out ! (nat (DecodeMorton2Y (int i)) * nat (imageWidth out) + nat (DecodeMorton2X (int i)))
         = offsets ! i \<and>
       normal_pixels out ! (nat (DecodeMorton2Y (int i)) * nat (imageWidth out) + nat (DecodeMorton2X (int i)))
         = normals ! i"
    and other: "\<forall>y x. y < nat (imageHeight out) \<longrightarrow> x < nat (imageWidth out) \<longrightarrow>
       (\<forall>i < 7. (DecodeMorton2X (int i), DecodeMorton2Y (int i)) \<noteq> (int x, int y)) \<longrightarrow>
       offset_pixels out ! (y * nat (imageWidth out) + x) = (0, 0, 0, 0) \<and>
       normal_pixels out ! (y * nat (imageWidth out) + x) = (0, 0, 0, 0)"
    by blast
  have eq: "offsets = example_offsets" "normals = example_normals"
    using g get_vertex_data_example by simp_all
  have w32: "imageWidth out = 32" unfolding w example_extent by (simp add: ceiling_fraction)
  have h32: "imageHeight out = 32" unfolding h example_extent by (simp add: ceiling_fraction)
  have l: "length (offset_pixels out) = 1024" "length (normal_pixels out) = 1024"
    unfolding lo ln w32 h32 by simp_all
  have "(4::nat) < 7" "(5::nat) < 7" "(4::nat) \<noteq> 5" by simp_all
  with inj have "(DecodeMorton2X (int 4), DecodeMorton2Y (int 4)) \<noteq> (DecodeMorton2X (int 5), DecodeMorton2Y (int 5))"
    by blast
  then have d: "(DecodeMorton2X 4, DecodeMorton2Y 4) \<noteq> (DecodeMorton2X 5, DecodeMorton2Y 5)" by simp
  have "(6::nat) < 7" by simp
  with hit have
    "offset_pixels out ! (nat (DecodeMorton2Y (int 6)) * nat (imageWidth out) + nat (DecodeMorton2X (int 6)))
         = offsets ! 6 \<and>
     normal_pixels out ! (nat (DecodeMorton2Y (int 6)) * nat (imageWidth out) + nat (DecodeMorton2X (int 6)))
         = normals ! 6" by blast
  then have c: "offset_pixels out ! (1 * 32 + 2) = (0, 0, 1, 1)"
    "normal_pixels out ! (1 * 32 + 2) = (0, 0, 0, 1)"
    unfolding w32 eq by (simp_all add: example_cells example_offsets_def example_normals_def)
  have "(1::nat) < nat (imageHeight out)" "(3::nat) < nat (imageWidth out)"
    unfolding w32 h32 by simp_all
  moreover have "\<forall>i < 7. (DecodeMorton2X (int i), DecodeMorton2Y (int i)) \<noteq> (int 3, int 1)"
    using example_free_cell by blast
  ultimately have "offset_pixels out ! (1 * nat (imageWidth out) + 3) = (0, 0, 0, 0) \<and>
       normal_pixels out ! (1 * nat (imageWidth out) + 3) = (0, 0, 0, 0)"
    using other by blast
  then have f: "offset_pixels out ! (1 * 32 + 3) = (0, 0, 0, 0)"
    "normal_pixels out ! (1 * 32 + 3) = (0, 0, 0, 0)"
    unfolding w32 by simp_all
  have "\<exists>out. execute exact_mathutils True 3 2 example_meshes True = Inr out \<and>
      imageWidth out = 32 \<and> imageHeight out = 32 \<and>
      length (offset_pixels out) = 1024 \<and> length (normal_pixels out) = 1024 \<and>
      (DecodeMorton2X 4, DecodeMorton2Y 4) \<noteq> (DecodeMorton2X 5, DecodeMorton2Y 5) \<and>
      DecodeMorton2X 6 = 2 \<and> DecodeMorton2Y 6 = 1 \<and>
      offset_pixels out ! (1 * 32 + 2) = (0, 0, 1, 1) \<and>
      normal_pixels out ! (1 * 32 + 2) = (0, 0, 0, 1) \<and>
      offset_pixels out ! (1 * 32 + 3) = (0, 0, 0, 0) \<and>
      normal_pixels out ! (1 * 32 + 3) = (0, 0, 0, 0)"
    using ex w32 h32 l d example_cells(13,14) c f by (intro exI [of _ out]) simp
  then show ?thesis
    using well_formed_example encodable_example cap by simp
qed

end
